theory Spec2Isabelle
  imports Complex_Main
begin

section \<open>The simulated-click component (clicker.py)\<close>

text \<open>
  A shallow embedding of \<^verbatim>\<open>XMem/inference/interact/fbrs/inference/clicker.py\<close>.
  Methods of the class \<^verbatim>\<open>Clicker\<close> take the object state as an argument. A method that
  assigns to \<^verbatim>\<open>self\<close> returns \<open>Inr\<close> of the state it leaves when it returns normally and
  \<open>Inl (e, s)\<close> when it raises \<open>e\<close>, where \<open>s\<close> is the state at the moment of the raise
  (a method may have assigned to some attributes before it raises).
\<close>

subsection \<open>Exceptions\<close>

datatype error = AssertionError | AttributeError | ValueError | IndexError

subsection \<open>Two-dimensional numpy arrays\<close>

text \<open>
  A 2-D array is the list of its rows. An array without rows is \<open>[]\<close>; the number of
  columns of such an array is not represented and reads as 0.
\<close>

type_synonym 'a array2 = "'a list list"

definition shape :: "'a array2 \<Rightarrow> nat \<times> nat" where
  "shape a = (length a, (case a of [] \<Rightarrow> 0 | r # _ \<Rightarrow> length r))"

definition rect :: "nat \<Rightarrow> nat \<Rightarrow> 'a array2 \<Rightarrow> bool" where
  "rect H W a = (map length a = replicate H W)"

text \<open>
  numpy broadcasting of two 2-D operands: along each axis the sizes must agree or one of
  them must be 1, and an axis of size 1 is repeated.
\<close>

definition broadcast_dim :: "nat \<Rightarrow> nat \<Rightarrow> nat option" where
  "broadcast_dim n m =
     (if n = m then Some n else if n = 1 then Some m else if m = 1 then Some n else None)"

definition stretch :: "nat \<Rightarrow> 'a list \<Rightarrow> 'a list" where
  "stretch n xs = (if length xs = n then xs else replicate n (hd xs))"

definition broadcast_to :: "nat \<times> nat \<Rightarrow> 'a array2 \<Rightarrow> 'a array2" where
  "broadcast_to hw a = stretch (fst hw) (map (stretch (snd hw)) a)"

definition np_binop :: "('a \<Rightarrow> 'b \<Rightarrow> 'c) \<Rightarrow> 'a array2 \<Rightarrow> 'b array2 \<Rightarrow> error + 'c array2" where
  "np_binop f a b =
     (case (broadcast_dim (fst (shape a)) (fst (shape b)),
            broadcast_dim (snd (shape a)) (snd (shape b))) of
        (Some h, Some w) \<Rightarrow>
          Inr (map2 (map2 f) (broadcast_to (h, w) a) (broadcast_to (h, w) b))
      | _ \<Rightarrow> Inl ValueError)"

definition logical_and :: "bool array2 \<Rightarrow> bool array2 \<Rightarrow> error + bool array2" where
  "logical_and a b = np_binop (\<and>) a b"

definition logical_not :: "bool array2 \<Rightarrow> bool array2" where
  "logical_not a = map (map Not) a"

text \<open>\<^verbatim>\<open>np.pad(a, ((1, 1), (1, 1)), "constant")\<close> on a boolean array, and the slice
  \<^verbatim>\<open>a[1:-1, 1:-1]\<close>.\<close>

definition np_pad :: "bool array2 \<Rightarrow> bool array2" where
  "np_pad a =
     (let w = snd (shape a) + 2
      in replicate w False # map (\<lambda>r. False # r @ [False]) a @ [replicate w False])"

definition crop :: "'a array2 \<Rightarrow> 'a array2" where
  "crop a = map (\<lambda>r. butlast (tl r)) (butlast (tl a))"

text \<open>
  \<^verbatim>\<open>scipy.ndimage.distance_transform_edt\<close> is a library function outside the repository.
  It returns an array of the shape of its input. The value it puts at each pixel is the
  parameter \<open>dtf\<close> of the model: \<open>dtf m i j\<close> is the entry at row \<open>i\<close>, column \<open>j\<close> of
  the transform of \<open>m\<close>. Floating-point values are read as reals.
\<close>

definition distance_transform_edt ::
  "(bool array2 \<Rightarrow> nat \<Rightarrow> nat \<Rightarrow> real) \<Rightarrow> bool array2 \<Rightarrow> real array2" where
  "distance_transform_edt dtf m =
     map (\<lambda>i. map (\<lambda>j. dtf m i j) [0..<snd (shape m)]) [0..<fst (shape m)]"

text \<open>\<^verbatim>\<open>dt * self.not_clicked_map\<close>: a boolean factor counts as 1 or 0.\<close>

definition times_mask :: "real array2 \<Rightarrow> bool array2 \<Rightarrow> error + real array2" where
  "times_mask a b = np_binop (\<lambda>x c. x * (if c then 1 else 0)) a b"

text \<open>\<^verbatim>\<open>np.max\<close> raises \<^verbatim>\<open>ValueError\<close> on an array without elements.\<close>

definition np_max :: "real array2 \<Rightarrow> error + real" where
  "np_max a = (case concat a of [] \<Rightarrow> Inl ValueError | x # xs \<Rightarrow> Inr (fold max xs x))"

text \<open>\<^verbatim>\<open>np.where(a == v)\<close>: the positions of the matching entries, in row-major order.\<close>

definition np_where_eq :: "real array2 \<Rightarrow> real \<Rightarrow> (nat \<times> nat) list" where
  "np_where_eq a v =
     concat (map (\<lambda>i. map (\<lambda>j. (i, j)) (filter (\<lambda>j. a ! i ! j = v) [0..<length (a ! i)]))
                 [0..<length a])"

text \<open>
  An index into an axis of size \<open>n\<close>: a negative index counts from the end, and an index
  outside \<open>[-n, n)\<close> raises \<^verbatim>\<open>IndexError\<close>.
\<close>

definition np_index :: "nat \<Rightarrow> int \<Rightarrow> nat option" where
  "np_index n i =
     (if 0 \<le> i \<and> i < int n then Some (nat i)
      else if - int n \<le> i \<and> i < 0 then Some (nat (i + int n))
      else None)"

definition pixel_of :: "'a array2 \<Rightarrow> int \<times> int \<Rightarrow> (nat \<times> nat) option" where
  "pixel_of a rc =
     (case (np_index (fst (shape a)) (fst rc), np_index (snd (shape a)) (snd rc)) of
        (Some i, Some j) \<Rightarrow> Some (i, j)
      | _ \<Rightarrow> None)"

text \<open>\<^verbatim>\<open>a[coords[0], coords[1]] = v\<close>.\<close>

definition setitem :: "'a array2 \<Rightarrow> int \<times> int \<Rightarrow> 'a \<Rightarrow> error + 'a array2" where
  "setitem a rc v =
     (case pixel_of a rc of
        Some (i, j) \<Rightarrow> Inr (a[i := (a ! i)[j := v]])
      | None \<Rightarrow> Inl IndexError)"

subsection \<open>Clicks and the state of a Clicker\<close>

record click =
  is_positive :: bool
  coords :: "int \<times> int"

text \<open>
  The attributes \<^verbatim>\<open>not_ignore_mask\<close> and \<^verbatim>\<open>not_clicked_map\<close> exist only when
  \<^verbatim>\<open>gt_mask\<close> is not \<^verbatim>\<open>None\<close>; no method reads them otherwise, and the record holds
  \<open>[]\<close> in their place then.
\<close>

record clicker =
  gt_mask :: "bool array2 option"
  not_ignore_mask :: "bool array2"
  not_clicked_map :: "bool array2"
  num_pos_clicks :: int
  num_neg_clicks :: int
  clicks_list :: "click list"

subsection \<open>The methods\<close>

text \<open>\<^verbatim>\<open>np.ones_like(self.gt_mask, dtype=np.bool)\<close>, with \<^verbatim>\<open>np.bool\<close> read as the boolean
  type (as in the numpy versions that have this name).\<close>

definition reset_clicks :: "clicker \<Rightarrow> clicker" where
  "reset_clicks s =
     (case gt_mask s of
        Some g \<Rightarrow> s\<lparr>not_clicked_map := map (map (\<lambda>_. True)) g\<rparr>
      | None \<Rightarrow> s)
     \<lparr>num_pos_clicks := 0, num_neg_clicks := 0, clicks_list := []\<rparr>"

definition add_click :: "clicker \<Rightarrow> click \<Rightarrow> (error \<times> clicker) + clicker" where
  "add_click s c =
     (let s1 = (if is_positive c then s\<lparr>num_pos_clicks := num_pos_clicks s + 1\<rparr>
                else s\<lparr>num_neg_clicks := num_neg_clicks s + 1\<rparr>);
          s2 = s1\<lparr>clicks_list := clicks_list s1 @ [c]\<rparr>
      in case gt_mask s2 of
           None \<Rightarrow> Inr s2
         | Some _ \<Rightarrow>
             (case setitem (not_clicked_map s2) (coords c) False of
                Inl e \<Rightarrow> Inl (e, s2)
              | Inr m \<Rightarrow> Inr (s2\<lparr>not_clicked_map := m\<rparr>)))"

text \<open>\<^verbatim>\<open>_remove_last_click\<close>; \<^verbatim>\<open>list.pop\<close> raises \<^verbatim>\<open>IndexError\<close> on an empty list.\<close>

definition remove_last_click :: "clicker \<Rightarrow> (error \<times> clicker) + clicker" where
  "remove_last_click s =
     (case rev (clicks_list s) of
        [] \<Rightarrow> Inl (IndexError, s)
      | c # _ \<Rightarrow>
          (let s1 = s\<lparr>clicks_list := butlast (clicks_list s)\<rparr>;
               s2 = (if is_positive c then s1\<lparr>num_pos_clicks := num_pos_clicks s1 - 1\<rparr>
                     else s1\<lparr>num_neg_clicks := num_neg_clicks s1 - 1\<rparr>)
           in case gt_mask s2 of
                None \<Rightarrow> Inr s2
              | Some _ \<Rightarrow>
                  (case setitem (not_clicked_map s2) (coords c) True of
                     Inl e \<Rightarrow> Inl (e, s2)
                   | Inr m \<Rightarrow> Inr (s2\<lparr>not_clicked_map := m\<rparr>))))"

text \<open>The loop \<^verbatim>\<open>for click in clicks: self.add_click(click)\<close>.\<close>

fun add_clicks :: "clicker \<Rightarrow> click list \<Rightarrow> (error \<times> clicker) + clicker" where
  "add_clicks s [] = Inr s"
| "add_clicks s (c # cs) =
     (case add_click s c of Inl e \<Rightarrow> Inl e | Inr s' \<Rightarrow> add_clicks s' cs)"

text \<open>\<^verbatim>\<open>__init__\<close>: the label map \<^verbatim>\<open>gt_mask\<close> is an integer array or \<^verbatim>\<open>None\<close>.\<close>

definition Clicker_init ::
  "int array2 option \<Rightarrow> click list option \<Rightarrow> int \<Rightarrow> (error \<times> clicker) + clicker" where
  "Clicker_init gt init_clicks ignore_label =
     (let s0 = \<lparr>gt_mask = map_option (map (map (\<lambda>v. v = 1))) gt,
               not_ignore_mask =
                 (case gt of None \<Rightarrow> [] | Some g \<Rightarrow> map (map (\<lambda>v. v \<noteq> ignore_label)) g),
               not_clicked_map = [],
               num_pos_clicks = 0, num_neg_clicks = 0, clicks_list = []\<rparr>;
          s1 = reset_clicks s0
      in case init_clicks of None \<Rightarrow> Inr s1 | Some cs \<Rightarrow> add_clicks s1 cs)"

text \<open>\<^verbatim>\<open>clicks_list[:clicks_limit]\<close>: a negative limit counts from the end.\<close>

definition get_clicks :: "clicker \<Rightarrow> int option \<Rightarrow> click list" where
  "get_clicks s clicks_limit =
     (case clicks_limit of
        None \<Rightarrow> clicks_list s
      | Some k \<Rightarrow>
          (if 0 \<le> k then take (nat k) (clicks_list s)
           else take (nat (int (length (clicks_list s)) + k)) (clicks_list s)))"

definition get_state :: "clicker \<Rightarrow> click list" where
  "get_state s = clicks_list s"

definition set_state :: "clicker \<Rightarrow> click list \<Rightarrow> (error \<times> clicker) + clicker" where
  "set_state s state = add_clicks (reset_clicks s) state"

definition len :: "clicker \<Rightarrow> nat" where
  "len s = length (clicks_list s)"

text \<open>
  The two error masks of \<^verbatim>\<open>_get_click\<close> (lines 33 to 40) and the masked distance maps
  (lines 42 to 54, with \<^verbatim>\<open>padding=True\<close>, the only value the class passes).
\<close>

definition fn_mask :: "clicker \<Rightarrow> bool array2 \<Rightarrow> bool array2 \<Rightarrow> error + bool array2" where
  "fn_mask s g pred_mask =
     (case logical_and g (logical_not pred_mask) of
        Inl e \<Rightarrow> Inl e
      | Inr a \<Rightarrow> logical_and a (not_ignore_mask s))"

definition fp_mask :: "clicker \<Rightarrow> bool array2 \<Rightarrow> bool array2 \<Rightarrow> error + bool array2" where
  "fp_mask s g pred_mask =
     (case logical_and (logical_not g) pred_mask of
        Inl e \<Rightarrow> Inl e
      | Inr a \<Rightarrow> logical_and a (not_ignore_mask s))"

definition masked_dt ::
  "(bool array2 \<Rightarrow> nat \<Rightarrow> nat \<Rightarrow> real) \<Rightarrow> clicker \<Rightarrow> bool array2 \<Rightarrow> error + real array2" where
  "masked_dt dtf s m =
     times_mask (crop (distance_transform_edt dtf (np_pad m))) (not_clicked_map s)"

definition fn_mask_dt ::
  "(bool array2 \<Rightarrow> nat \<Rightarrow> nat \<Rightarrow> real) \<Rightarrow> clicker \<Rightarrow> bool array2 \<Rightarrow> error + real array2" where
  "fn_mask_dt dtf s pred_mask =
     (case gt_mask s of
        None \<Rightarrow> Inl AttributeError
      | Some g \<Rightarrow>
          (case fn_mask s g pred_mask of Inl e \<Rightarrow> Inl e | Inr m \<Rightarrow> masked_dt dtf s m))"

definition fp_mask_dt ::
  "(bool array2 \<Rightarrow> nat \<Rightarrow> nat \<Rightarrow> real) \<Rightarrow> clicker \<Rightarrow> bool array2 \<Rightarrow> error + real array2" where
  "fp_mask_dt dtf s pred_mask =
     (case gt_mask s of
        None \<Rightarrow> Inl AttributeError
      | Some g \<Rightarrow>
          (case fp_mask s g pred_mask of Inl e \<Rightarrow> Inl e | Inr m \<Rightarrow> masked_dt dtf s m))"

text \<open>\<^verbatim>\<open>_get_click\<close>; \<^verbatim>\<open>coords_y[0]\<close> raises \<^verbatim>\<open>IndexError\<close> when nothing matched.\<close>

definition get_click ::
  "(bool array2 \<Rightarrow> nat \<Rightarrow> nat \<Rightarrow> real) \<Rightarrow> clicker \<Rightarrow> bool array2 \<Rightarrow> error + click" where
  "get_click dtf s pred_mask =
     (case fn_mask_dt dtf s pred_mask of
        Inl e \<Rightarrow> Inl e
      | Inr fn_dt \<Rightarrow>
     (case fp_mask_dt dtf s pred_mask of
        Inl e \<Rightarrow> Inl e
      | Inr fp_dt \<Rightarrow>
     (case np_max fn_dt of
        Inl e \<Rightarrow> Inl e
      | Inr fn_max_dist \<Rightarrow>
     (case np_max fp_dt of
        Inl e \<Rightarrow> Inl e
      | Inr fp_max_dist \<Rightarrow>
          (let pos = (fn_max_dist > fp_max_dist);
               found = (if pos then np_where_eq fn_dt fn_max_dist
                        else np_where_eq fp_dt fp_max_dist)
           in case found of
                [] \<Rightarrow> Inl IndexError
              | (y, x) # _ \<Rightarrow> Inr \<lparr>is_positive = pos, coords = (int y, int x)\<rparr>)))))"

definition make_next_click ::
  "(bool array2 \<Rightarrow> nat \<Rightarrow> nat \<Rightarrow> real) \<Rightarrow> clicker \<Rightarrow> bool array2
     \<Rightarrow> (error \<times> clicker) + clicker" where
  "make_next_click dtf s pred_mask =
     (case gt_mask s of
        None \<Rightarrow> Inl (AssertionError, s)
      | Some _ \<Rightarrow>
          (case get_click dtf s pred_mask of
             Inl e \<Rightarrow> Inl (e, s)
           | Inr c \<Rightarrow> add_click s c))"

subsection \<open>The Euclidean distance transform\<close>

text \<open>
  Modelled from the spec: the distance-field primitive, which the repository takes from
  scipy. "Given a binary image, returns for every pixel its distance to the nearest zero
  pixel"; "zero-valued input pixels map to 0". An image without a zero pixel does not
  occur here, since the transform is applied to padded masks; the model gives it 0.
\<close>

definition zero_pixels :: "bool array2 \<Rightarrow> (nat \<times> nat) list" where
  "zero_pixels m =
     concat (map (\<lambda>k. map (\<lambda>l. (k, l)) (filter (\<lambda>l. \<not> m ! k ! l) [0..<length (m ! k)]))
                 [0..<length m])"

definition sq_dist :: "nat \<Rightarrow> nat \<Rightarrow> nat \<times> nat \<Rightarrow> nat" where
  "sq_dist i j kl =
     nat ((int i - int (fst kl)) * (int i - int (fst kl))
        + (int j - int (snd kl)) * (int j - int (snd kl)))"

definition edt_dist :: "bool array2 \<Rightarrow> nat \<Rightarrow> nat \<Rightarrow> real" where
  "edt_dist m i j =
     (if m ! i ! j then
        (case map (sq_dist i j) (zero_pixels m) of
           [] \<Rightarrow> 0
         | d # ds \<Rightarrow> sqrt (real (fold min ds d)))
      else 0)"

subsection \<open>Shapes of the state\<close>

text \<open>A Clicker that holds a ground truth of shape \<open>(H, W)\<close>, with its two other
  arrays of the same shape.\<close>

definition gt_shaped :: "nat \<Rightarrow> nat \<Rightarrow> clicker \<Rightarrow> bool" where
  "gt_shaped H W s =
     (case gt_mask s of
        None \<Rightarrow> False
      | Some g \<Rightarrow> rect H W g \<and> rect H W (not_ignore_mask s) \<and> rect H W (not_clicked_map s))"


subsection \<open>Sequences of calls\<close>

text \<open>
  A call of \<^verbatim>\<open>add_click\<close>, \<^verbatim>\<open>_remove_last_click\<close> or \<^verbatim>\<open>reset_clicks\<close>, and a sequence of
  such calls on one object; an exception ends the sequence. \<^verbatim>\<open>make_next_click\<close> and
  \<^verbatim>\<open>set_state\<close> change the state by these calls only.
\<close>

datatype call = AddClick click | RemoveLastClick | ResetClicks

fun apply_call :: "clicker \<Rightarrow> call \<Rightarrow> (error \<times> clicker) + clicker" where
  "apply_call s (AddClick c) = add_click s c"
| "apply_call s RemoveLastClick = remove_last_click s"
| "apply_call s ResetClicks = Inr (reset_clicks s)"

fun run_calls :: "clicker \<Rightarrow> call list \<Rightarrow> (error \<times> clicker) + clicker" where
  "run_calls s [] = Inr s"
| "run_calls s (x # xs) =
     (case apply_call s x of Inl e \<Rightarrow> Inl e | Inr s' \<Rightarrow> run_calls s' xs)"

text \<open>The pixel of \<^verbatim>\<open>not_clicked_map\<close> that each click of the list refers to.\<close>

definition pixels :: "clicker \<Rightarrow> (nat \<times> nat) option list" where
  "pixels s = map (\<lambda>c. pixel_of (not_clicked_map s) (coords c)) (clicks_list s)"

text \<open>
  The click refers to a pixel inside the map that is still marked as not clicked (no
  condition when there is no ground truth, where \<^verbatim>\<open>add_click\<close> touches no map).
\<close>

definition fresh_pixel :: "clicker \<Rightarrow> click \<Rightarrow> bool" where
  "fresh_pixel s c =
     (case gt_mask s of
        None \<Rightarrow> True
      | Some _ \<Rightarrow>
          (case pixel_of (not_clicked_map s) (coords c) of
             None \<Rightarrow> False
           | Some (i, j) \<Rightarrow> not_clicked_map s ! i ! j))"

text \<open>Every \<^verbatim>\<open>add_click\<close> of the sequence refers to such a pixel at the time of its call.\<close>

fun fresh_adds :: "clicker \<Rightarrow> call list \<Rightarrow> bool" where
  "fresh_adds s [] = True"
| "fresh_adds s (x # xs) =
     ((case x of AddClick c \<Rightarrow> fresh_pixel s c | _ \<Rightarrow> True) \<and>
      (case apply_call s x of Inl e \<Rightarrow> True | Inr s' \<Rightarrow> fresh_adds s' xs))"

text \<open>The invariants of the click state used in the proofs.\<close>

definition counters_ok :: "clicker \<Rightarrow> bool" where
  "counters_ok s =
     (num_pos_clicks s = int (length (filter is_positive (clicks_list s))) \<and>
      num_neg_clicks s = int (length (filter (\<lambda>c. \<not> is_positive c) (clicks_list s))))"

definition click_inv :: "nat \<Rightarrow> nat \<Rightarrow> clicker \<Rightarrow> bool" where
  "click_inv H W s =
     (gt_shaped H W s \<and> counters_ok s \<and> None \<notin> set (pixels s) \<and>
      (\<forall>i<H. \<forall>j<W. \<not> not_clicked_map s ! i ! j \<longrightarrow> Some (i, j) \<in> set (pixels s)))"

definition click_inv_fresh :: "nat \<Rightarrow> nat \<Rightarrow> clicker \<Rightarrow> bool" where
  "click_inv_fresh H W s =
     (distinct (pixels s) \<and>
      (\<forall>i<H. \<forall>j<W. Some (i, j) \<in> set (pixels s) \<longrightarrow> \<not> not_clicked_map s ! i ! j))"

subsection \<open>Notions of the specification\<close>

text \<open>
  The maximum of an array, and "the first pixel, in row-major scan order (smallest row,
  then smallest column), achieving" a value, written independently of \<open>np_max\<close> and
  \<open>np_where_eq\<close>.
\<close>

definition is_max_of :: "real array2 \<Rightarrow> real \<Rightarrow> bool" where
  "is_max_of a m = (m \<in> set (concat a) \<and> (\<forall>x\<in>set (concat a). x \<le> m))"

definition first_at :: "real array2 \<Rightarrow> real \<Rightarrow> int \<times> int \<Rightarrow> bool" where
  "first_at a v rc =
     (0 \<le> fst rc \<and> 0 \<le> snd rc \<and>
      nat (fst rc) < length a \<and> nat (snd rc) < length (a ! nat (fst rc)) \<and>
      a ! nat (fst rc) ! nat (snd rc) = v \<and>
      (\<forall>i\<in>{0..<length a}. \<forall>j\<in>{0..<length (a ! i)}.
          (i < nat (fst rc) \<or> (i = nat (fst rc) \<and> j < nat (snd rc))) \<longrightarrow> a ! i ! j \<noteq> v))"


text \<open>
  The masked distance maps in the words of the specification (steps 1 to 5 of the selection
  algorithm), entry by entry: the false-negative mask is "ground_truth AND (NOT pred_mask)
  AND valid_region", the false-positive mask is "(NOT ground_truth) AND pred_mask AND
  valid_region"; each is padded "by 1 pixel of false/zero border on all sides", transformed,
  cropped back, and every pixel already marked as clicked is set to zero.
\<close>

definition tabulate2 :: "nat \<Rightarrow> nat \<Rightarrow> (nat \<Rightarrow> nat \<Rightarrow> 'a) \<Rightarrow> 'a array2" where
  "tabulate2 H W f = map (\<lambda>i. map (\<lambda>j. f i j) [0..<W]) [0..<H]"

definition spec_false_negative ::
  "nat \<Rightarrow> nat \<Rightarrow> bool array2 \<Rightarrow> bool array2 \<Rightarrow> bool array2 \<Rightarrow> bool array2" where
  "spec_false_negative H W ground_truth pred valid_region =
     tabulate2 H W (\<lambda>i j. ground_truth ! i ! j \<and> \<not> pred ! i ! j \<and> valid_region ! i ! j)"

definition spec_false_positive ::
  "nat \<Rightarrow> nat \<Rightarrow> bool array2 \<Rightarrow> bool array2 \<Rightarrow> bool array2 \<Rightarrow> bool array2" where
  "spec_false_positive H W ground_truth pred valid_region =
     tabulate2 H W (\<lambda>i j. \<not> ground_truth ! i ! j \<and> pred ! i ! j \<and> valid_region ! i ! j)"

definition spec_padded :: "nat \<Rightarrow> nat \<Rightarrow> bool array2 \<Rightarrow> bool array2" where
  "spec_padded H W m =
     tabulate2 (H + 2) (W + 2)
       (\<lambda>i j. 0 < i \<and> i \<le> H \<and> 0 < j \<and> j \<le> W \<and> m ! (i - 1) ! (j - 1))"

definition spec_masked_distance ::
  "(bool array2 \<Rightarrow> nat \<Rightarrow> nat \<Rightarrow> real) \<Rightarrow> nat \<Rightarrow> nat \<Rightarrow> bool array2 \<Rightarrow> bool array2
     \<Rightarrow> real array2" where
  "spec_masked_distance dtf H W m not_clicked =
     tabulate2 H W
       (\<lambda>i j. if not_clicked ! i ! j then dtf (spec_padded H W m) (i + 1) (j + 1) else 0)"

text \<open>The pixels still marked as not clicked, in row-major order.\<close>

definition not_clicked_pixels :: "clicker \<Rightarrow> (nat \<times> nat) list" where
  "not_clicked_pixels s =
     concat (map (\<lambda>i. map (\<lambda>j. (i, j))
                        (filter (\<lambda>j. not_clicked_map s ! i ! j) [0..<length (not_clicked_map s ! i)]))
                 [0..<length (not_clicked_map s)])"


subsection \<open>Example states\<close>

text \<open>A Clicker built without a ground truth: \<^verbatim>\<open>Clicker()\<close>.\<close>

definition clicker_no_gt :: clicker where
  "clicker_no_gt =
     \<lparr>gt_mask = None, not_ignore_mask = [], not_clicked_map = [],
      num_pos_clicks = 0, num_neg_clicks = 0, clicks_list = []\<rparr>"

definition neg00 :: click where
  "neg00 = \<lparr>is_positive = False, coords = (0, 0)\<rparr>"

definition pos00 :: click where
  "pos00 = \<lparr>is_positive = True, coords = (0, 0)\<rparr>"

definition neg01 :: click where
  "neg01 = \<lparr>is_positive = False, coords = (0, 1)\<rparr>"

definition pos01 :: click where
  "pos01 = \<lparr>is_positive = True, coords = (0, 1)\<rparr>"

text \<open>\<^verbatim>\<open>Clicker(gt_mask=np.array([[1]]))\<close> and \<^verbatim>\<open>Clicker(gt_mask=np.array([[1, 0]]))\<close>.\<close>

definition clicker_1x1 :: clicker where
  "clicker_1x1 =
     \<lparr>gt_mask = Some [[True]], not_ignore_mask = [[True]], not_clicked_map = [[True]],
      num_pos_clicks = 0, num_neg_clicks = 0, clicks_list = []\<rparr>"

definition clicker_1x2 :: clicker where
  "clicker_1x2 =
     \<lparr>gt_mask = Some [[True, False]], not_ignore_mask = [[True, True]],
      not_clicked_map = [[True, True]],
      num_pos_clicks = 0, num_neg_clicks = 0, clicks_list = []\<rparr>"

text \<open>The second of them after one negative click at \<open>(0, 0)\<close>.\<close>

definition clicker_1x2_clicked :: clicker where
  "clicker_1x2_clicked =
     \<lparr>gt_mask = Some [[True, False]], not_ignore_mask = [[True, True]],
      not_clicked_map = [[False, True]],
      num_pos_clicks = 0, num_neg_clicks = 1, clicks_list = [neg00]\<rparr>"

text \<open>The first of them after \<open>add_click\<close>, \<open>add_click\<close>, \<open>_remove_last_click\<close> with one
  negative click at \<open>(0, 0)\<close>.\<close>

definition clicker_1x1_undone :: clicker where
  "clicker_1x1_undone =
     \<lparr>gt_mask = Some [[True]], not_ignore_mask = [[True]], not_clicked_map = [[True]],
      num_pos_clicks = 0, num_neg_clicks = 1, clicks_list = [neg00]\<rparr>"

text \<open>\<^verbatim>\<open>Clicker(gt_mask=np.array([[1, 1]]))\<close> after one positive click at \<open>(0, 0)\<close>.\<close>

definition clicker_fg_clicked :: clicker where
  "clicker_fg_clicked =
     \<lparr>gt_mask = Some [[True, True]], not_ignore_mask = [[True, True]],
      not_clicked_map = [[False, True]],
      num_pos_clicks = 1, num_neg_clicks = 0, clicks_list = [pos00]\<rparr>"

text \<open>\<^verbatim>\<open>Clicker(init_clicks=[...])\<close> with five clicks and no ground truth.\<close>

definition clicker_five :: clicker where
  "clicker_five =
     \<lparr>gt_mask = None, not_ignore_mask = [], not_clicked_map = [],
      num_pos_clicks = 2, num_neg_clicks = 3,
      clicks_list = [pos00, neg00, neg01, pos00, neg00]\<rparr>"

section \<open>Properties\<close>

subsection \<open>Arrays\<close>

lemma rect_iff: "rect H W a \<longleftrightarrow> length a = H \<and> (\<forall>r\<in>set a. length r = W)"
proof
  assume r: "rect H W a"
  then have "length (map length a) = length (replicate H W)" by (simp add: rect_def)
  then have l: "length a = H" by simp
  have "\<forall>r\<in>set a. length r = W"
    using r unfolding rect_def by (metis in_set_replicate imageI set_map)
  then show "length a = H \<and> (\<forall>r\<in>set a. length r = W)" using l by auto
next
  assume "length a = H \<and> (\<forall>r\<in>set a. length r = W)"
  then show "rect H W a"
    by (auto simp: rect_def list_eq_iff_nth_eq)
qed

lemma rect_length: "rect H W a \<Longrightarrow> length a = H"
  by (simp add: rect_iff)

lemma rect_nth: "rect H W a \<Longrightarrow> i < H \<Longrightarrow> length (a ! i) = W"
  by (simp add: rect_iff)

lemma shape_rect: "rect H W a \<Longrightarrow> 0 < H \<Longrightarrow> shape a = (H, W)"
  by (cases a) (auto simp: rect_iff shape_def)

lemma shape_rect0: "rect 0 W a \<Longrightarrow> shape a = (0, 0)"
  by (simp add: rect_iff shape_def)

lemma rect_map_map: "rect H W (map (map f) a) = rect H W a"
  by (simp add: rect_def comp_def)

lemma broadcast_to_same: "rect H W a \<Longrightarrow> broadcast_to (H, W) a = a"
  by (simp add: broadcast_to_def stretch_def rect_iff map_idI)

lemma broadcast_to_shape: 
  assumes "rect H W a" shows "broadcast_to (shape a) a = a"
proof (cases "H = 0")
  case True
  then show ?thesis using assms by (simp add: rect_iff shape_def broadcast_to_def stretch_def)
next
  case False
  then show ?thesis using assms by (simp add: shape_rect broadcast_to_same)
qed

lemma rect_map2: 
  assumes "rect H W a" "rect H W b" shows "rect H W (map2 (map2 f) a b)"
  unfolding rect_def by (rule nth_equalityI) (use assms in \<open>simp_all add: rect_iff\<close>)

lemma np_binop_same:
  assumes "rect H W a" "rect H W b"
  shows "np_binop f a b = Inr (map2 (map2 f) a b)"
proof -
  have s: "shape a = shape b"
    using assms by (cases "H = 0") (simp_all add: shape_rect shape_rect0)
  have "broadcast_to (shape b) a = a" "broadcast_to (shape b) b = b"
    using assms broadcast_to_shape[of H W a] broadcast_to_shape[of H W b] s by simp_all
  then show ?thesis
    using s by (simp add: np_binop_def broadcast_dim_def)
qed

lemma nth_map2_map2:
  "rect H W a \<Longrightarrow> rect H W b \<Longrightarrow> i < H \<Longrightarrow> j < W \<Longrightarrow>
   map2 (map2 f) a b ! i ! j = f (a ! i ! j) (b ! i ! j)"
  by (simp add: rect_iff)

lemma rect_np_pad: 
  assumes "rect H W a" "0 < H" shows "rect (H + 2) (W + 2) (np_pad a)"
proof -
  have "snd (shape a) = W" using assms by (simp add: shape_rect)
  then show ?thesis using assms(1) by (auto simp: np_pad_def Let_def rect_iff)
qed

lemma rect_distance_transform_edt:
  assumes "rect H W m" "0 < H" shows "rect H W (distance_transform_edt dtf m)"
proof -
  have "shape m = (H, W)" using assms by (simp add: shape_rect)
  then show ?thesis by (simp add: distance_transform_edt_def rect_iff)
qed

lemma rect_crop: "rect (H + 2) (W + 2) a \<Longrightarrow> rect H W (crop a)"
  by (auto simp: crop_def rect_iff dest!: in_set_butlastD list.set_sel(2)[rotated])

lemma rect_ext:
  assumes "rect H W a" "rect H W b" "\<forall>i<H. \<forall>j<W. a ! i ! j = b ! i ! j"
  shows "a = b"
proof (rule nth_equalityI)
  show "length a = length b" using assms by (simp add: rect_iff)
next
  fix i assume "i < length a"
  then have i: "i < H" using assms(1) by (simp add: rect_iff)
  have "length (a ! i) = W" "length (b ! i) = W" using assms i by (simp_all add: rect_iff)
  then show "a ! i = b ! i" using assms(3) i by (auto intro: nth_equalityI)
qed

subsection \<open>Maximum and first match\<close>

lemma np_max_Inr: "np_max a = Inr m \<Longrightarrow> is_max_of a m"
proof -
  assume h: "np_max a = Inr m"
  then obtain x xs where c: "concat a = x # xs" and m: "m = fold max xs x"
    by (auto simp: np_max_def split: list.splits)
  have e: "m = Max (set (x # xs))" unfolding m by (rule Max.set_eq_fold[symmetric])
  have "Max (set (x # xs)) \<in> set (x # xs)" by (rule Max_in) simp_all
  moreover have "\<forall>z\<in>set (x # xs). z \<le> Max (set (x # xs))" by simp
  ultimately show ?thesis unfolding is_max_of_def c e by blast
qed

lemma np_max_nonempty: "concat a \<noteq> [] \<Longrightarrow> \<exists>m. np_max a = Inr m"
  by (auto simp: np_max_def split: list.splits)

lemma filter_upt_first:
  "filter P [0..<w] = x # rest \<Longrightarrow> x < w \<and> P x \<and> (\<forall>j<x. \<not> P j)"
proof (induction w arbitrary: rest)
  case 0
  then show ?case by simp
next
  case (Suc w)
  show ?case
  proof (cases "filter P [0..<w]")
    case Nil
    then have "\<forall>j<w. \<not> P j" by (auto simp: filter_empty_conv)
    moreover have "x = w \<and> P w" using Suc.prems Nil by (auto split: if_splits)
    ultimately show ?thesis by auto
  next
    case (Cons y ys)
    then have "x = y" using Suc.prems by (auto split: if_splits)
    with Suc.IH[of ys] Cons show ?thesis by auto
  qed
qed

lemma rows_first:
  assumes "concat (map (\<lambda>i. map (\<lambda>j. (i, j)) (filter (P i) [0..<w i])) [0..<n]) = (y, x) # rest"
  shows "y < n \<and> x < w y \<and> P y x \<and> (\<forall>i<y. \<forall>j<w i. \<not> P i j) \<and> (\<forall>j<x. \<not> P y j)"
  using assms
proof (induction n arbitrary: rest)
  case 0
  then show ?case by simp
next
  case (Suc n)
  let ?f = "\<lambda>i. map (\<lambda>j. (i, j)) (filter (P i) [0..<w i])"
  show ?case
  proof (cases "concat (map ?f [0..<n])")
    case Nil
    then have e: "\<forall>i<n. filter (P i) [0..<w i] = []" by auto
    then have none: "\<forall>i<n. \<forall>j<w i. \<not> P i j" by (auto simp: filter_empty_conv)
    from Suc.prems Nil have "?f n = (y, x) # rest" by simp
    then obtain r where "y = n" "filter (P n) [0..<w n] = x # r" by auto
    with filter_upt_first[of "P n" "w n" x r] none show ?thesis by auto
  next
    case (Cons p ps)
    then have "p = (y, x)" using Suc.prems by simp
    with Suc.IH[of ps] Cons show ?thesis by auto
  qed
qed

lemma np_where_eq_first:
  assumes "np_where_eq a v = (y, x) # rest"
  shows "first_at a v (int y, int x)"
proof -
  have r: "y < length a \<and> x < length (a ! y) \<and> a ! y ! x = v \<and>
        (\<forall>i<y. \<forall>j<length (a ! i). a ! i ! j \<noteq> v) \<and> (\<forall>j<x. a ! y ! j \<noteq> v)"
    using rows_first[of "\<lambda>i j. a ! i ! j = v" "\<lambda>i. length (a ! i)" "length a" y x rest] assms
    unfolding np_where_eq_def by blast
  then show ?thesis
    unfolding first_at_def by simp
qed

lemma np_where_eq_nonempty:
  assumes "is_max_of a m" shows "np_where_eq a m \<noteq> []"
proof -
  from assms obtain r where r: "r \<in> set a" "m \<in> set r" by (auto simp: is_max_of_def)
  from r(1) obtain i where i: "i < length a" "a ! i = r" by (auto simp: in_set_conv_nth)
  from r(2) obtain j where j: "j < length r" "r ! j = m" by (auto simp: in_set_conv_nth)
  have "(i, j) \<in> set (np_where_eq a m)"
    using i j by (auto simp: np_where_eq_def)
  then show ?thesis by auto
qed

lemma np_where_eq_bounds:
  "(y, x) \<in> set (np_where_eq a v) \<Longrightarrow> y < length a \<and> x < length (a ! y)"
  by (auto simp: np_where_eq_def)

subsection \<open>The masked distance maps\<close>

lemma crop_nth:
  assumes "rect (H + 2) (W + 2) a" "i < H" "j < W"
  shows "crop a ! i ! j = a ! Suc i ! Suc j"
proof -
  have l: "length a = H + 2" using assms(1) by (simp add: rect_iff)
  have "butlast (tl a) ! i = a ! Suc i" using l assms(2) by (simp add: nth_butlast nth_tl)
  moreover have "length (a ! Suc i) = W + 2" using assms(1,2) rect_nth[of "H + 2" "W + 2" a "Suc i"] by simp
  ultimately show ?thesis
    using l assms(2,3) by (simp add: crop_def nth_butlast nth_tl)
qed

lemma distance_transform_edt_nth:
  assumes "rect H W m" "i < H" "j < W"
  shows "distance_transform_edt dtf m ! i ! j = dtf m i j"
proof -
  have "shape m = (H, W)" using assms by (simp add: shape_rect)
  then show ?thesis using assms by (simp add: distance_transform_edt_def)
qed

lemma masked_dt_rect:
  assumes "rect H W m" "rect H W (not_clicked_map s)" "0 < H"
  shows "\<exists>a. masked_dt dtf s m = Inr a \<and> rect H W a \<and>
          (\<forall>i<H. \<forall>j<W. a ! i ! j =
             dtf (np_pad m) (Suc i) (Suc j) * (if not_clicked_map s ! i ! j then 1 else 0))"
proof -
  let ?p = "np_pad m"
  let ?d = "distance_transform_edt dtf ?p"
  have p: "rect (H + 2) (W + 2) ?p" using assms(1,3) by (rule rect_np_pad)
  then have d: "rect (H + 2) (W + 2) ?d" by (rule rect_distance_transform_edt) simp
  then have c: "rect H W (crop ?d)" by (rule rect_crop)
  have v: "\<forall>i<H. \<forall>j<W. crop ?d ! i ! j = dtf ?p (Suc i) (Suc j)"
    using d p by (simp add: crop_nth distance_transform_edt_nth)
  let ?a = "map2 (map2 (\<lambda>x c. x * (if c then 1 else 0))) (crop ?d) (not_clicked_map s)"
  have "masked_dt dtf s m = Inr ?a"
    using c assms(2) by (simp add: masked_dt_def times_mask_def np_binop_same)
  moreover have "rect H W ?a" using c assms(2) by (rule rect_map2)
  moreover have "\<forall>i<H. \<forall>j<W. ?a ! i ! j =
             dtf ?p (Suc i) (Suc j) * (if not_clicked_map s ! i ! j then 1 else 0)"
  proof (intro allI impI)
    fix i j assume ij: "i < H" "j < W"
    have "?a ! i ! j = crop ?d ! i ! j * (if not_clicked_map s ! i ! j then 1 else 0)"
      using c assms(2) ij by (rule nth_map2_map2)
    then show "?a ! i ! j =
             dtf ?p (Suc i) (Suc j) * (if not_clicked_map s ! i ! j then 1 else 0)"
      using v ij by simp
  qed
  ultimately show ?thesis by blast
qed

lemma fn_mask_rect:
  assumes "rect H W g" "rect H W (not_ignore_mask s)" "rect H W p"
  shows "\<exists>m. fn_mask s g p = Inr m \<and> rect H W m"
proof -
  have n: "rect H W (logical_not p)" using assms by (simp add: logical_not_def rect_map_map)
  have a: "rect H W (map2 (map2 (\<and>)) g (logical_not p))" using assms(1) n by (rule rect_map2)
  have "rect H W (map2 (map2 (\<and>)) (map2 (map2 (\<and>)) g (logical_not p)) (not_ignore_mask s))"
    using a assms(2) by (rule rect_map2)
  then show ?thesis
    using np_binop_same[OF assms(1) n, of "(\<and>)"] np_binop_same[OF a assms(2), of "(\<and>)"]
    by (simp add: fn_mask_def logical_and_def)
qed

lemma fp_mask_rect:
  assumes "rect H W g" "rect H W (not_ignore_mask s)" "rect H W p"
  shows "\<exists>m. fp_mask s g p = Inr m \<and> rect H W m"
proof -
  have n: "rect H W (logical_not g)" using assms by (simp add: logical_not_def rect_map_map)
  have a: "rect H W (map2 (map2 (\<and>)) (logical_not g) p)" using n assms(3) by (rule rect_map2)
  have "rect H W (map2 (map2 (\<and>)) (map2 (map2 (\<and>)) (logical_not g) p) (not_ignore_mask s))"
    using a assms(2) by (rule rect_map2)
  then show ?thesis
    using np_binop_same[OF n assms(3), of "(\<and>)"] np_binop_same[OF a assms(2), of "(\<and>)"]
    by (simp add: fp_mask_def logical_and_def)
qed

lemma fn_mask_dt_rect:
  assumes "gt_shaped H W s" "rect H W p" "0 < H"
  shows "\<exists>a d. fn_mask_dt dtf s p = Inr a \<and> rect H W a \<and>
          (\<forall>i<H. \<forall>j<W. a ! i ! j = d i j * (if not_clicked_map s ! i ! j then 1 else 0)) \<and>
          ((\<forall>m i j. 0 \<le> dtf m i j) \<longrightarrow> (\<forall>i j. 0 \<le> d i j))"
proof -
  from assms(1) obtain g where g: "gt_mask s = Some g" "rect H W g"
    "rect H W (not_ignore_mask s)" "rect H W (not_clicked_map s)"
    by (auto simp: gt_shaped_def split: option.splits)
  from fn_mask_rect[OF g(2,3) assms(2)] obtain m where m: "fn_mask s g p = Inr m" "rect H W m"
    by blast
  from masked_dt_rect[OF m(2) g(4) assms(3), of dtf] obtain a where
    a: "masked_dt dtf s m = Inr a" "rect H W a"
       "\<forall>i<H. \<forall>j<W. a ! i ! j =
             dtf (np_pad m) (Suc i) (Suc j) * (if not_clicked_map s ! i ! j then 1 else 0)"
    by blast
  have "fn_mask_dt dtf s p = Inr a" using g(1) m(1) a(1) by (simp add: fn_mask_dt_def)
  then show ?thesis using a(2,3)
    by (intro exI[of _ a] exI[of _ "\<lambda>i j. dtf (np_pad m) (Suc i) (Suc j)"]) simp
qed

lemma fp_mask_dt_rect:
  assumes "gt_shaped H W s" "rect H W p" "0 < H"
  shows "\<exists>a d. fp_mask_dt dtf s p = Inr a \<and> rect H W a \<and>
          (\<forall>i<H. \<forall>j<W. a ! i ! j = d i j * (if not_clicked_map s ! i ! j then 1 else 0)) \<and>
          ((\<forall>m i j. 0 \<le> dtf m i j) \<longrightarrow> (\<forall>i j. 0 \<le> d i j))"
proof -
  from assms(1) obtain g where g: "gt_mask s = Some g" "rect H W g"
    "rect H W (not_ignore_mask s)" "rect H W (not_clicked_map s)"
    by (auto simp: gt_shaped_def split: option.splits)
  from fp_mask_rect[OF g(2,3) assms(2)] obtain m where m: "fp_mask s g p = Inr m" "rect H W m"
    by blast
  from masked_dt_rect[OF m(2) g(4) assms(3), of dtf] obtain a where
    a: "masked_dt dtf s m = Inr a" "rect H W a"
       "\<forall>i<H. \<forall>j<W. a ! i ! j =
             dtf (np_pad m) (Suc i) (Suc j) * (if not_clicked_map s ! i ! j then 1 else 0)"
    by blast
  have "fp_mask_dt dtf s p = Inr a" using g(1) m(1) a(1) by (simp add: fp_mask_dt_def)
  then show ?thesis using a(2,3)
    by (intro exI[of _ a] exI[of _ "\<lambda>i j. dtf (np_pad m) (Suc i) (Suc j)"]) simp
qed

lemma rect_concat_nonempty: "rect H W a \<Longrightarrow> 0 < H \<Longrightarrow> 0 < W \<Longrightarrow> concat a \<noteq> []"
  by (cases a) (auto simp: rect_iff)

lemma get_click_Inr:
  assumes "get_click dtf s p = Inr c"
  shows "\<exists>fn_dt fp_dt fn_max fp_max y x rest.
           fn_mask_dt dtf s p = Inr fn_dt \<and> fp_mask_dt dtf s p = Inr fp_dt \<and>
           np_max fn_dt = Inr fn_max \<and> np_max fp_dt = Inr fp_max \<and>
           np_where_eq (if fn_max > fp_max then fn_dt else fp_dt)
                       (if fn_max > fp_max then fn_max else fp_max) = (y, x) # rest \<and>
           c = \<lparr>is_positive = (fn_max > fp_max), coords = (int y, int x)\<rparr>"
  using assms
  by (auto simp: get_click_def Let_def split: sum.splits list.splits if_splits)

lemma get_click_total:
  assumes "fn_mask_dt dtf s p = Inr fn_dt" "fp_mask_dt dtf s p = Inr fp_dt"
    "np_max fn_dt = Inr fn_max" "np_max fp_dt = Inr fp_max"
  shows "\<exists>y x rest.
           np_where_eq (if fn_max > fp_max then fn_dt else fp_dt)
                       (if fn_max > fp_max then fn_max else fp_max) = (y, x) # rest \<and>
           get_click dtf s p = Inr \<lparr>is_positive = (fn_max > fp_max), coords = (int y, int x)\<rparr>"
proof -
  let ?a = "if fn_max > fp_max then fn_dt else fp_dt"
  let ?m = "if fn_max > fp_max then fn_max else fp_max"
  have "is_max_of ?a ?m" using assms(3,4) by (simp add: np_max_Inr)
  then have "np_where_eq ?a ?m \<noteq> []" by (rule np_where_eq_nonempty)
  then obtain y x rest where w: "np_where_eq ?a ?m = (y, x) # rest"
    by (cases "np_where_eq ?a ?m") auto
  then have "get_click dtf s p = Inr \<lparr>is_positive = (fn_max > fp_max), coords = (int y, int x)\<rparr>"
    using assms by (auto simp: get_click_def Let_def)
  with w show ?thesis by blast
qed

lemma np_index_bound: "np_index n r = Some i \<Longrightarrow> i < n"
  by (auto simp: np_index_def split: if_splits)

lemma np_index_nat: "y < n \<Longrightarrow> np_index n (int y) = Some y"
  by (simp add: np_index_def)

lemma pixel_of_bounds:
  assumes "rect H W a" "pixel_of a rc = Some (i, j)"
  shows "i < H \<and> j < W"
proof -
  from assms(2) have i: "np_index (fst (shape a)) (fst rc) = Some i"
    and j: "np_index (snd (shape a)) (snd rc) = Some j"
    by (auto simp: pixel_of_def split: option.splits)
  have "i < fst (shape a)" using i by (rule np_index_bound)
  then have "i < H" using assms(1) by (simp add: shape_def rect_iff)
  then have "shape a = (H, W)" using assms(1) by (simp add: shape_rect)
  then show ?thesis using i j np_index_bound by fastforce
qed

lemma pixel_of_nat:
  assumes "rect H W a" "y < H" "x < W"
  shows "pixel_of a (int y, int x) = Some (y, x)"
proof -
  have "shape a = (H, W)" using assms by (simp add: shape_rect)
  then show ?thesis using assms by (simp add: pixel_of_def np_index_nat)
qed

lemma rect_update:
  assumes "rect H W a" shows "rect H W (a[i := (a ! i)[j := v]])"
proof -
  have "map length (a[i := (a ! i)[j := v]]) = map length a"
  proof (rule nth_equalityI)
    show "length (map length (a[i := (a ! i)[j := v]])) = length (map length a)" by simp
  next
    fix k assume "k < length (map length (a[i := (a ! i)[j := v]]))"
    then have "k < length a" by simp
    then show "map length (a[i := (a ! i)[j := v]]) ! k = map length a ! k"
      by (cases "k = i") simp_all
  qed
  then show ?thesis using assms by (simp add: rect_def)
qed

lemma add_click_clicks: "add_click s c = Inr s' \<Longrightarrow> clicks_list s' = clicks_list s @ [c]"
  by (auto simp: add_click_def Let_def split: option.splits sum.splits if_splits)

lemma add_click_inbounds:
  assumes "gt_shaped H W s" "pixel_of (not_clicked_map s) (coords c) = Some (i, j)"
  shows "\<exists>s'. add_click s c = Inr s'"
  using assms
  by (auto simp: add_click_def Let_def setitem_def gt_shaped_def split: option.splits)

lemma rows_head:
  "0 < n \<Longrightarrow> 0 < w 0 \<Longrightarrow> P 0 0 \<Longrightarrow>
   \<exists>rest. concat (map (\<lambda>i. map (\<lambda>j. (i, j)) (filter (P i) [0..<w i])) [0..<n])
          = (0::nat, 0::nat) # rest"
  by (simp add: upt_conv_Cons)

lemma np_where_eq_head:
  "0 < length a \<Longrightarrow> 0 < length (a ! 0) \<Longrightarrow> a ! 0 ! 0 = v \<Longrightarrow>
   \<exists>rest. np_where_eq a v = (0, 0) # rest"
  unfolding np_where_eq_def
  by (rule rows_head[of "length a" "\<lambda>i. length (a ! i)" "\<lambda>i j. a ! i ! j = v"])

lemma is_max_of_nth:
  assumes "is_max_of a m" "rect H W a" "i < H" "j < W"
  shows "a ! i ! j \<le> m"
proof -
  have "a ! i \<in> set a" using assms by (simp add: rect_iff)
  moreover have "a ! i ! j \<in> set (a ! i)" using assms by (simp add: rect_iff)
  ultimately have "a ! i ! j \<in> set (concat a)" by auto
  then show ?thesis using assms(1) by (simp add: is_max_of_def del: set_concat)
qed




subsection \<open>Evaluation of the examples\<close>

lemmas run_defs =
  Clicker_init_def reset_clicks_def make_next_click_def get_click_def fn_mask_dt_def
  fp_mask_dt_def fn_mask_def fp_mask_def logical_and_def logical_not_def np_binop_def
  shape_def broadcast_dim_def broadcast_to_def stretch_def masked_dt_def times_mask_def
  crop_def np_pad_def distance_transform_edt_def edt_dist_def zero_pixels_def sq_dist_def
  np_max_def np_where_eq_def add_click_def setitem_def pixel_of_def np_index_def Let_def

lemmas call_defs =
  remove_last_click_def set_state_def get_state_def pixels_def fresh_pixel_def

lemmas spec_defs =
  tabulate2_def spec_false_negative_def spec_false_positive_def spec_padded_def
  spec_masked_distance_def

lemma edt_dist_nonneg: "0 \<le> edt_dist m i j"
  by (simp add: edt_dist_def split: list.splits)

subsection \<open>Click selection\<close>

lemma make_next_click_click:
  assumes "make_next_click dtf s pred_mask = Inr s'"
  shows "\<exists>fn_dt fp_dt fn_max fp_max c.
           fn_mask_dt dtf s pred_mask = Inr fn_dt \<and> fp_mask_dt dtf s pred_mask = Inr fp_dt \<and>
           is_max_of fn_dt fn_max \<and> is_max_of fp_dt fp_max \<and>
           clicks_list s' = clicks_list s @ [c] \<and>
           is_positive c = (fn_max > fp_max) \<and>
           first_at (if fn_max > fp_max then fn_dt else fp_dt)
                    (if fn_max > fp_max then fn_max else fp_max) (coords c)"
proof -
  from assms obtain c where c: "get_click dtf s pred_mask = Inr c" and a: "add_click s c = Inr s'"
    by (auto simp: make_next_click_def split: option.splits sum.splits)
  from get_click_Inr[OF c] obtain fn_dt fp_dt fn_max fp_max y x rest where g:
    "fn_mask_dt dtf s pred_mask = Inr fn_dt" "fp_mask_dt dtf s pred_mask = Inr fp_dt"
    "np_max fn_dt = Inr fn_max" "np_max fp_dt = Inr fp_max"
    "np_where_eq (if fn_max > fp_max then fn_dt else fp_dt)
                 (if fn_max > fp_max then fn_max else fp_max) = (y, x) # rest"
    "c = \<lparr>is_positive = (fn_max > fp_max), coords = (int y, int x)\<rparr>"
    by blast
  have "first_at (if fn_max > fp_max then fn_dt else fp_dt)
                 (if fn_max > fp_max then fn_max else fp_max) (coords c)"
    using np_where_eq_first[OF g(5)] g(6) by simp
  moreover have "is_positive c = (fn_max > fp_max)" using g(6) by simp
  moreover have "is_max_of fn_dt fn_max" "is_max_of fp_dt fp_max"
    using g(3,4) by (simp_all add: np_max_Inr)
  moreover have "clicks_list s' = clicks_list s @ [c]" using a by (rule add_click_clicks)
  ultimately show ?thesis using g(1,2) by blast
qed

lemma make_next_click_total:
  assumes "gt_shaped H W s" "rect H W pred_mask" "0 < H" "0 < W"
  shows "\<exists>fn_dt fp_dt fn_max fp_max c s'.
           fn_mask_dt dtf s pred_mask = Inr fn_dt \<and> fp_mask_dt dtf s pred_mask = Inr fp_dt \<and>
           np_max fn_dt = Inr fn_max \<and> np_max fp_dt = Inr fp_max \<and>
           np_where_eq (if fn_max > fp_max then fn_dt else fp_dt)
                       (if fn_max > fp_max then fn_max else fp_max) \<noteq> [] \<and>
           get_click dtf s pred_mask = Inr c \<and>
           0 \<le> fst (coords c) \<and> fst (coords c) < int H \<and>
           0 \<le> snd (coords c) \<and> snd (coords c) < int W \<and>
           make_next_click dtf s pred_mask = Inr s'"
proof -
  from fn_mask_dt_rect[OF assms(1,2,3), of dtf] obtain fn_dt where
    fn: "fn_mask_dt dtf s pred_mask = Inr fn_dt" "rect H W fn_dt" by blast
  from fp_mask_dt_rect[OF assms(1,2,3), of dtf] obtain fp_dt where
    fp: "fp_mask_dt dtf s pred_mask = Inr fp_dt" "rect H W fp_dt" by blast
  from np_max_nonempty[OF rect_concat_nonempty[OF fn(2) assms(3,4)]] obtain fn_max where
    fnm: "np_max fn_dt = Inr fn_max" by blast
  from np_max_nonempty[OF rect_concat_nonempty[OF fp(2) assms(3,4)]] obtain fp_max where
    fpm: "np_max fp_dt = Inr fp_max" by blast
  let ?a = "if fn_max > fp_max then fn_dt else fp_dt"
  let ?m = "if fn_max > fp_max then fn_max else fp_max"
  from get_click_total[OF fn(1) fp(1) fnm fpm] obtain y x rest where
    w: "np_where_eq ?a ?m = (y, x) # rest" and
    c: "get_click dtf s pred_mask = Inr \<lparr>is_positive = (fn_max > fp_max), coords = (int y, int x)\<rparr>"
    by blast
  have ra: "rect H W ?a" using fn(2) fp(2) by simp
  have "(y, x) \<in> set (np_where_eq ?a ?m)" using w by simp
  then have yx: "y < length ?a \<and> x < length (?a ! y)" by (rule np_where_eq_bounds)
  then have yH: "y < H" using ra by (simp add: rect_length)
  then have "length (?a ! y) = W" using ra by (rule rect_nth[rotated])
  then have b: "y < H" "x < W" using yx yH by simp_all
  from assms(1) obtain g where g: "gt_mask s = Some g" "rect H W (not_clicked_map s)"
    by (auto simp: gt_shaped_def split: option.splits)
  have "pixel_of (not_clicked_map s) (int y, int x) = Some (y, x)"
    using g(2) b by (rule pixel_of_nat)
  then obtain s' where
    "add_click s \<lparr>is_positive = (fn_max > fp_max), coords = (int y, int x)\<rparr> = Inr s'"
    using add_click_inbounds[OF assms(1), of "\<lparr>is_positive = (fn_max > fp_max), coords = (int y, int x)\<rparr>" y x]
    by auto
  then have "make_next_click dtf s pred_mask = Inr s'"
    using g(1) c by (simp add: make_next_click_def)
  moreover have "np_where_eq ?a ?m \<noteq> []" using w by simp
  ultimately show ?thesis using fn(1) fp(1) fnm fpm c b
    by (intro exI[of _ fn_dt] exI[of _ fp_dt] exI[of _ fn_max] exI[of _ fp_max]
          exI[of _ "\<lparr>is_positive = (fn_max > fp_max), coords = (int y, int x)\<rparr>"] exI[of _ s'])
       simp
qed

subsection \<open>The code computes the maps of the specification\<close>

lemma rect_tabulate2: "rect H W (tabulate2 H W f)"
  by (simp add: tabulate2_def rect_iff)

lemma tabulate2_nth: "i < H \<Longrightarrow> j < W \<Longrightarrow> tabulate2 H W f ! i ! j = f i j"
  by (simp add: tabulate2_def)

lemma eq_tabulate2:
  assumes "rect H W a" "\<forall>i<H. \<forall>j<W. a ! i ! j = f i j"
  shows "a = tabulate2 H W f"
  using assms(1) rect_tabulate2
proof (rule rect_ext)
  show "\<forall>i<H. \<forall>j<W. a ! i ! j = tabulate2 H W f ! i ! j"
    using assms(2) by (simp add: tabulate2_nth)
qed

lemma logical_not_nth:
  assumes "rect H W a" "i < H" "j < W" shows "logical_not a ! i ! j = (\<not> a ! i ! j)"
proof -
  have "length a = H" "length (a ! i) = W" using assms by (simp_all add: rect_iff)
  then show ?thesis using assms by (simp add: logical_not_def)
qed

lemma fn_mask_spec:
  assumes "rect H W g" "rect H W (not_ignore_mask s)" "rect H W p"
  shows "fn_mask s g p = Inr (spec_false_negative H W g p (not_ignore_mask s))"
proof -
  have n: "rect H W (logical_not p)" using assms by (simp add: logical_not_def rect_map_map)
  let ?a = "map2 (map2 (\<and>)) g (logical_not p)"
  let ?m = "map2 (map2 (\<and>)) ?a (not_ignore_mask s)"
  have a: "rect H W ?a" using assms(1) n by (rule rect_map2)
  have m: "rect H W ?m" using a assms(2) by (rule rect_map2)
  have e: "fn_mask s g p = Inr ?m"
    using np_binop_same[OF assms(1) n, of "(\<and>)"] np_binop_same[OF a assms(2), of "(\<and>)"]
    by (simp add: fn_mask_def logical_and_def)
  have "\<forall>i<H. \<forall>j<W. ?m ! i ! j = (g ! i ! j \<and> \<not> p ! i ! j \<and> not_ignore_mask s ! i ! j)"
  proof (intro allI impI)
    fix i j assume b: "i < H" "j < W"
    have "?m ! i ! j = (?a ! i ! j \<and> not_ignore_mask s ! i ! j)"
      using a assms(2) b by (rule nth_map2_map2)
    moreover have "?a ! i ! j = (g ! i ! j \<and> logical_not p ! i ! j)"
      using assms(1) n b by (rule nth_map2_map2)
    ultimately show "?m ! i ! j = (g ! i ! j \<and> \<not> p ! i ! j \<and> not_ignore_mask s ! i ! j)"
      using logical_not_nth[OF assms(3) b] by simp
  qed
  with m have "?m = spec_false_negative H W g p (not_ignore_mask s)"
    unfolding spec_false_negative_def by (rule eq_tabulate2)
  with e show ?thesis by simp
qed

lemma fp_mask_spec:
  assumes "rect H W g" "rect H W (not_ignore_mask s)" "rect H W p"
  shows "fp_mask s g p = Inr (spec_false_positive H W g p (not_ignore_mask s))"
proof -
  have n: "rect H W (logical_not g)" using assms by (simp add: logical_not_def rect_map_map)
  let ?a = "map2 (map2 (\<and>)) (logical_not g) p"
  let ?m = "map2 (map2 (\<and>)) ?a (not_ignore_mask s)"
  have a: "rect H W ?a" using n assms(3) by (rule rect_map2)
  have m: "rect H W ?m" using a assms(2) by (rule rect_map2)
  have e: "fp_mask s g p = Inr ?m"
    using np_binop_same[OF n assms(3), of "(\<and>)"] np_binop_same[OF a assms(2), of "(\<and>)"]
    by (simp add: fp_mask_def logical_and_def)
  have "\<forall>i<H. \<forall>j<W. ?m ! i ! j = (\<not> g ! i ! j \<and> p ! i ! j \<and> not_ignore_mask s ! i ! j)"
  proof (intro allI impI)
    fix i j assume b: "i < H" "j < W"
    have "?m ! i ! j = (?a ! i ! j \<and> not_ignore_mask s ! i ! j)"
      using a assms(2) b by (rule nth_map2_map2)
    moreover have "?a ! i ! j = (logical_not g ! i ! j \<and> p ! i ! j)"
      using n assms(3) b by (rule nth_map2_map2)
    ultimately show "?m ! i ! j = (\<not> g ! i ! j \<and> p ! i ! j \<and> not_ignore_mask s ! i ! j)"
      using logical_not_nth[OF assms(1) b] by simp
  qed
  with m have "?m = spec_false_positive H W g p (not_ignore_mask s)"
    unfolding spec_false_positive_def by (rule eq_tabulate2)
  with e show ?thesis by simp
qed

lemma np_pad_nth:
  assumes "rect H W m" "0 < H" "i < H + 2" "j < W + 2"
  shows "np_pad m ! i ! j = (0 < i \<and> i \<le> H \<and> 0 < j \<and> j \<le> W \<and> m ! (i - 1) ! (j - 1))"
proof -
  have w: "snd (shape m) = W" using assms(1,2) by (simp add: shape_rect)
  have l: "length m = H" using assms(1) by (simp add: rect_iff)
  show ?thesis
  proof (cases "i = 0 \<or> i = H + 1")
    case True
    then show ?thesis using assms(3,4) w l
      by (auto simp: np_pad_def Let_def nth_Cons' nth_append)
  next
    case False
    then have i: "0 < i" "i \<le> H" using assms(3) by auto
    have k: "i - 1 < length m" using i l by arith
    have "np_pad m ! i = (map (\<lambda>r. False # r @ [False]) m @ [replicate (W + 2) False]) ! (i - 1)"
      using i(1) w by (simp add: np_pad_def Let_def nth_Cons')
    also have "\<dots> = map (\<lambda>r. False # r @ [False]) m ! (i - 1)"
      using k by (simp add: nth_append)
    also have "\<dots> = False # (m ! (i - 1)) @ [False]"
      using k by (rule nth_map)
    finally have r: "np_pad m ! i = False # (m ! (i - 1)) @ [False]" .
    have "length (m ! (i - 1)) = W" using assms(1) i by (simp add: rect_iff)
    then show ?thesis using r i assms(4) by (auto simp: nth_Cons' nth_append)
  qed
qed

lemma np_pad_spec:
  assumes "rect H W m" "0 < H"
  shows "np_pad m = spec_padded H W m"
  unfolding spec_padded_def
proof (rule eq_tabulate2)
  show "rect (H + 2) (W + 2) (np_pad m)" using assms by (rule rect_np_pad)
  show "\<forall>i<H + 2. \<forall>j<W + 2. np_pad m ! i ! j =
          (0 < i \<and> i \<le> H \<and> 0 < j \<and> j \<le> W \<and> m ! (i - 1) ! (j - 1))"
    using np_pad_nth[OF assms] by blast
qed

lemma masked_dt_spec:
  assumes "rect H W m" "rect H W (not_clicked_map s)" "0 < H"
  shows "masked_dt dtf s m = Inr (spec_masked_distance dtf H W m (not_clicked_map s))"
proof -
  from masked_dt_rect[OF assms, of dtf] obtain a where a:
    "masked_dt dtf s m = Inr a" "rect H W a"
    "\<forall>i<H. \<forall>j<W. a ! i ! j =
             dtf (np_pad m) (Suc i) (Suc j) * (if not_clicked_map s ! i ! j then 1 else 0)"
    by blast
  have "\<forall>i<H. \<forall>j<W. a ! i ! j =
      (if not_clicked_map s ! i ! j then dtf (spec_padded H W m) (i + 1) (j + 1) else 0)"
    using a(3) np_pad_spec[OF assms(1,3)] by simp
  with a(2) have "a = spec_masked_distance dtf H W m (not_clicked_map s)"
    unfolding spec_masked_distance_def by (rule eq_tabulate2)
  with a(1) show ?thesis by simp
qed

lemma fn_mask_dt_spec:
  assumes "gt_shaped H W s" "gt_mask s = Some g" "rect H W p" "0 < H"
  shows "fn_mask_dt dtf s p =
     Inr (spec_masked_distance dtf H W (spec_false_negative H W g p (not_ignore_mask s))
            (not_clicked_map s))"
proof -
  from assms(1,2) have g: "rect H W g" "rect H W (not_ignore_mask s)" "rect H W (not_clicked_map s)"
    by (simp_all add: gt_shaped_def)
  have "rect H W (spec_false_negative H W g p (not_ignore_mask s))"
    unfolding spec_false_negative_def by (rule rect_tabulate2)
  from masked_dt_spec[OF this g(3) assms(4), of dtf] fn_mask_spec[OF g(1,2) assms(3)] assms(2)
  show ?thesis by (simp add: fn_mask_dt_def)
qed

lemma fp_mask_dt_spec:
  assumes "gt_shaped H W s" "gt_mask s = Some g" "rect H W p" "0 < H"
  shows "fp_mask_dt dtf s p =
     Inr (spec_masked_distance dtf H W (spec_false_positive H W g p (not_ignore_mask s))
            (not_clicked_map s))"
proof -
  from assms(1,2) have g: "rect H W g" "rect H W (not_ignore_mask s)" "rect H W (not_clicked_map s)"
    by (simp_all add: gt_shaped_def)
  have "rect H W (spec_false_positive H W g p (not_ignore_mask s))"
    unfolding spec_false_positive_def by (rule rect_tabulate2)
  from masked_dt_spec[OF this g(3) assms(4), of dtf] fp_mask_spec[OF g(1,2) assms(3)] assms(2)
  show ?thesis by (simp add: fp_mask_dt_def)
qed

text \<open>
  C1. With a ground truth and a predicted mask of one shape \<open>(H, W)\<close>, \<open>H \<ge> 1\<close> and
  \<open>W \<ge> 1\<close>: the two maps that \<^verbatim>\<open>_get_click\<close> compares are the masked false-negative and
  false-positive distance maps of the specification; \<^verbatim>\<open>make_next_click\<close> returns and has
  appended one click \<open>c\<close>. With \<open>fn_max\<close> and \<open>fp_max\<close> the maxima of the two maps, \<open>c\<close> is
  positive exactly when \<open>fn_max > fp_max\<close> (so equal maxima give a negative click), and its
  coordinate is the first pixel in row-major order at which the chosen map attains its
  maximum.
\<close>

theorem make_next_click_selects:
  assumes "gt_shaped H W s" "gt_mask s = Some g" "rect H W pred_mask" "0 < H" "0 < W"
  shows "\<exists>fn_max fp_max c s'.
     fn_mask_dt dtf s pred_mask =
       Inr (spec_masked_distance dtf H W
              (spec_false_negative H W g pred_mask (not_ignore_mask s)) (not_clicked_map s)) \<and>
     fp_mask_dt dtf s pred_mask =
       Inr (spec_masked_distance dtf H W
              (spec_false_positive H W g pred_mask (not_ignore_mask s)) (not_clicked_map s)) \<and>
     is_max_of (spec_masked_distance dtf H W
              (spec_false_negative H W g pred_mask (not_ignore_mask s)) (not_clicked_map s)) fn_max \<and>
     is_max_of (spec_masked_distance dtf H W
              (spec_false_positive H W g pred_mask (not_ignore_mask s)) (not_clicked_map s)) fp_max \<and>
     make_next_click dtf s pred_mask = Inr s' \<and>
     clicks_list s' = clicks_list s @ [c] \<and>
     is_positive c = (fn_max > fp_max) \<and>
     first_at
       (if fn_max > fp_max
        then spec_masked_distance dtf H W
               (spec_false_negative H W g pred_mask (not_ignore_mask s)) (not_clicked_map s)
        else spec_masked_distance dtf H W
               (spec_false_positive H W g pred_mask (not_ignore_mask s)) (not_clicked_map s))
       (if fn_max > fp_max then fn_max else fp_max) (coords c)"
proof -
  let ?FN = "spec_masked_distance dtf H W
              (spec_false_negative H W g pred_mask (not_ignore_mask s)) (not_clicked_map s)"
  let ?FP = "spec_masked_distance dtf H W
              (spec_false_positive H W g pred_mask (not_ignore_mask s)) (not_clicked_map s)"
  have fn: "fn_mask_dt dtf s pred_mask = Inr ?FN"
    using assms(1,2,3,4) by (rule fn_mask_dt_spec)
  have fp: "fp_mask_dt dtf s pred_mask = Inr ?FP"
    using assms(1,2,3,4) by (rule fp_mask_dt_spec)
  from make_next_click_total[OF assms(1,3,4,5), of dtf] obtain s' where
    r: "make_next_click dtf s pred_mask = Inr s'" by blast
  from make_next_click_click[OF r] fn fp obtain fn_max fp_max c where
    "is_max_of ?FN fn_max" "is_max_of ?FP fp_max" "clicks_list s' = clicks_list s @ [c]"
    "is_positive c = (fn_max > fp_max)"
    "first_at (if fn_max > fp_max then ?FN else ?FP)
       (if fn_max > fp_max then fn_max else fp_max) (coords c)"
    by auto
  with fn fp r show ?thesis by blast
qed

theorem make_next_click_selects_witness:
  "gt_shaped 1 2 clicker_fg_clicked \<and> gt_mask clicker_fg_clicked = Some [[True, True]] \<and>
   rect 1 2 [[False, False]] \<and>
   spec_false_negative 1 2 [[True, True]] [[False, False]] [[True, True]] = [[True, True]] \<and>
   spec_false_positive 1 2 [[True, True]] [[False, False]] [[True, True]] = [[False, False]] \<and>
   fn_mask_dt edt_dist clicker_fg_clicked [[False, False]] = Inr [[0, 1]] \<and>
   fp_mask_dt edt_dist clicker_fg_clicked [[False, False]] = Inr [[0, 0]] \<and>
   spec_masked_distance edt_dist 1 2 [[True, True]] [[False, True]] = [[0, 1]] \<and>
   spec_masked_distance edt_dist 1 2 [[False, False]] [[False, True]] = [[0, 0]] \<and>
   is_max_of [[0, 1]] 1 \<and> is_max_of [[0, 0]] 0 \<and>
   make_next_click edt_dist clicker_fg_clicked [[False, False]] =
     Inr (clicker_fg_clicked\<lparr>not_clicked_map := [[False, False]], num_pos_clicks := 2,
            clicks_list := [pos00, pos01]\<rparr>) \<and>
   (1::real) > 0 \<and> first_at [[0, 1]] 1 (coords pos01)"
  using make_next_click_selects [of 1 2 clicker_fg_clicked "[[True, True]]" "[[False, False]]" edt_dist]
  by (simp add: clicker_fg_clicked_def pos00_def pos01_def gt_shaped_def rect_def run_defs
        spec_defs is_max_of_def first_at_def upt_conv_Cons)

text \<open>
  C10. With a ground truth of shape \<open>(H, W)\<close>, \<open>H \<ge> 1\<close> and \<open>W \<ge> 1\<close>, and a predicted
  mask of that shape, both masked maps and both maxima exist, the set of pixels at which
  the chosen map attains its maximum is not empty, \<^verbatim>\<open>_get_click\<close> returns a click with
  coordinates in \<open>[0, H) \<times> [0, W)\<close>, and \<^verbatim>\<open>make_next_click\<close> returns normally. This holds
  for every distance transform \<open>dtf\<close>.
\<close>

theorem make_next_click_succeeds:
  assumes "gt_shaped H W s" "rect H W pred_mask" "0 < H" "0 < W"
  shows "\<exists>fn_dt fp_dt fn_max fp_max c s'.
           fn_mask_dt dtf s pred_mask = Inr fn_dt \<and> fp_mask_dt dtf s pred_mask = Inr fp_dt \<and>
           np_max fn_dt = Inr fn_max \<and> np_max fp_dt = Inr fp_max \<and>
           np_where_eq (if fn_max > fp_max then fn_dt else fp_dt)
                       (if fn_max > fp_max then fn_max else fp_max) \<noteq> [] \<and>
           get_click dtf s pred_mask = Inr c \<and>
           0 \<le> fst (coords c) \<and> fst (coords c) < int H \<and>
           0 \<le> snd (coords c) \<and> snd (coords c) < int W \<and>
           make_next_click dtf s pred_mask = Inr s'"
  using assms by (rule make_next_click_total)

theorem make_next_click_succeeds_witness:
  "gt_shaped 1 1 clicker_1x1 \<and> rect 1 1 [[False]] \<and>
   get_click edt_dist clicker_1x1 [[False]] = Inr pos00 \<and>
   make_next_click edt_dist clicker_1x1 [[False]] =
     Inr (clicker_1x1\<lparr>not_clicked_map := [[False]], num_pos_clicks := 1, clicks_list := [pos00]\<rparr>)"
  using make_next_click_succeeds [of 1 1 clicker_1x1 "[[False]]" edt_dist]
  by (simp add: clicker_1x1_def pos00_def gt_shaped_def rect_def run_defs)

text \<open>
  With a non-negative distance transform and both maxima 0, every entry of the
  false-positive map is 0 and \<^verbatim>\<open>np.where\<close> matches at \<open>(0, 0)\<close> first: the click is negative
  at \<open>(0, 0)\<close>.
\<close>

lemma zero_maxima_origin:
  assumes "gt_shaped H W s" "rect H W pred_mask" "0 < H" "0 < W"
    and "\<forall>m i j. 0 \<le> dtf m i j"
    and "fn_mask_dt dtf s pred_mask = Inr fn_dt" "np_max fn_dt = Inr 0"
    and "fp_mask_dt dtf s pred_mask = Inr fp_dt" "np_max fp_dt = Inr 0"
  shows "get_click dtf s pred_mask = Inr \<lparr>is_positive = False, coords = (0, 0)\<rparr>"
proof -
  from fp_mask_dt_rect[OF assms(1,2,3), of dtf] assms(5,8) obtain d where
    fp: "rect H W fp_dt"
      "\<forall>i<H. \<forall>j<W. fp_dt ! i ! j = d i j * (if not_clicked_map s ! i ! j then 1 else 0)"
      "\<forall>i j. (0::real) \<le> d i j"
    by auto
  have "fp_dt ! 0 ! 0 \<le> 0"
    using is_max_of_nth[OF np_max_Inr[OF assms(9)] fp(1) assms(3,4)] .
  moreover have "0 \<le> fp_dt ! 0 ! 0" using fp(2,3) assms(3,4) by simp
  ultimately have z: "fp_dt ! 0 ! 0 = 0" by simp
  have "0 < length fp_dt" "0 < length (fp_dt ! 0)" using fp(1) assms(3,4) by (simp_all add: rect_iff)
  from np_where_eq_head[OF this z] obtain rest where w: "np_where_eq fp_dt 0 = (0, 0) # rest"
    by blast
  show ?thesis using assms(6,7,8,9) w by (simp add: get_click_def)
qed

text \<open>
  C7. On the ground truth \<open>[[1, 0]]\<close> with a prediction equal to it, the first call of
  \<^verbatim>\<open>make_next_click\<close> clicks \<open>(0, 0)\<close>. In the second call both maxima are 0 again and the
  selected click is negative, but its coordinate is \<open>(0, 0)\<close> again, a pixel marked as
  clicked, while the first pixel still marked as not clicked is \<open>(0, 1)\<close>.
\<close>

theorem zero_maxima_clicked_origin:
  "make_next_click edt_dist clicker_1x2 [[True, False]] = Inr clicker_1x2_clicked \<and>
   fn_mask_dt edt_dist clicker_1x2_clicked [[True, False]] = Inr [[0, 0]] \<and>
   fp_mask_dt edt_dist clicker_1x2_clicked [[True, False]] = Inr [[0, 0]] \<and>
   np_max [[0, 0]] = Inr 0 \<and>
   get_click edt_dist clicker_1x2_clicked [[True, False]] = Inr neg00 \<and>
   coords neg00 = (0, 0) \<and>
   \<not> not_clicked_map clicker_1x2_clicked ! 0 ! 0 \<and>
   not_clicked_pixels clicker_1x2_clicked = [(0, 1)]"
  by (simp add: clicker_1x2_def clicker_1x2_clicked_def neg00_def run_defs not_clicked_pixels_def)

text \<open>
  C2. Two calls of \<^verbatim>\<open>make_next_click\<close> on the ground truth \<open>[[1]]\<close> with the prediction
  \<open>[[True]]\<close> append two clicks with the same coordinate \<open>(0, 0)\<close>.
\<close>

theorem repeated_click_at_origin:
  "Clicker_init (Some [[1]]) None (- 1) = Inr clicker_1x1 \<and>
   make_next_click edt_dist clicker_1x1 [[True]] =
     Inr (clicker_1x1\<lparr>not_clicked_map := [[False]], num_neg_clicks := 1, clicks_list := [neg00]\<rparr>) \<and>
   make_next_click edt_dist
     (clicker_1x1\<lparr>not_clicked_map := [[False]], num_neg_clicks := 1, clicks_list := [neg00]\<rparr>) [[True]] =
     Inr (clicker_1x1\<lparr>not_clicked_map := [[False]], num_neg_clicks := 2, clicks_list := [neg00, neg00]\<rparr>)"
  by (simp add: clicker_1x1_def neg00_def run_defs)

text \<open>
  The masking by \<^verbatim>\<open>not_clicked_map\<close> does exclude clicked pixels whenever the maximum of
  the chosen map is not 0: the selected pixel is then still marked as not clicked.
\<close>

lemma nonzero_maximum_fresh:
  assumes "gt_shaped H W s" "rect H W pred_mask" "0 < H"
    and "get_click dtf s pred_mask = Inr c"
    and "fn_mask_dt dtf s pred_mask = Inr fn_dt" "np_max fn_dt = Inr fn_max"
    and "fp_mask_dt dtf s pred_mask = Inr fp_dt" "np_max fp_dt = Inr fp_max"
    and "(if fn_max > fp_max then fn_max else fp_max) \<noteq> 0"
  shows "fresh_pixel s c"
proof -
  let ?a = "if fn_max > fp_max then fn_dt else fp_dt"
  let ?m = "if fn_max > fp_max then fn_max else fp_max"
  from get_click_Inr[OF assms(4)] assms(5-8) obtain y x rest where
    w: "np_where_eq ?a ?m = (y, x) # rest" and
    c: "c = \<lparr>is_positive = (fn_max > fp_max), coords = (int y, int x)\<rparr>"
    by auto
  from fn_mask_dt_rect[OF assms(1,2,3), of dtf] assms(5) obtain dn where
    fn: "rect H W fn_dt"
    "\<forall>i<H. \<forall>j<W. fn_dt ! i ! j = dn i j * (if not_clicked_map s ! i ! j then 1 else 0)"
    by auto
  from fp_mask_dt_rect[OF assms(1,2,3), of dtf] assms(7) obtain dp where
    fp: "rect H W fp_dt"
    "\<forall>i<H. \<forall>j<W. fp_dt ! i ! j = dp i j * (if not_clicked_map s ! i ! j then 1 else 0)"
    by auto
  have ra: "rect H W ?a" using fn(1) fp(1) by simp
  from np_where_eq_first[OF w] have f: "y < length ?a" "x < length (?a ! y)" "?a ! y ! x = ?m"
    by (simp_all add: first_at_def)
  have yH: "y < H" using f(1) ra by (simp add: rect_length)
  then have "length (?a ! y) = W" using ra by (rule rect_nth[rotated])
  then have xW: "x < W" using f(2) by simp
  have "\<exists>d. ?a ! y ! x = d * (if not_clicked_map s ! y ! x then 1 else 0)"
    using fn(2) fp(2) yH xW by auto
  then have t: "not_clicked_map s ! y ! x" using f(3) assms(9) by (auto split: if_splits)
  from assms(1) obtain g where g: "gt_mask s = Some g" "rect H W (not_clicked_map s)"
    by (auto simp: gt_shaped_def split: option.splits)
  have "pixel_of (not_clicked_map s) (int y, int x) = Some (y, x)"
    using g(2) yH xW by (rule pixel_of_nat)
  then show ?thesis using g(1) t c by (simp add: fresh_pixel_def)
qed

subsection \<open>Shape of the predicted mask\<close>




subsection \<open>Calls without a ground truth, and reading the clicks\<close>

text \<open>
  C8. On a Clicker without a ground-truth mask, \<^verbatim>\<open>make_next_click\<close> fails on its assertion
  that a ground truth is present (the precondition error of the specification), for every
  predicted mask, and the state at the raise is the state before the call.
\<close>

theorem make_next_click_without_gt:
  "gt_mask s = None \<Longrightarrow> make_next_click dtf s pred_mask = Inl (AssertionError, s)"
  by (simp add: make_next_click_def)

theorem make_next_click_without_gt_witness:
  "Clicker_init None None (- 1) = Inr clicker_no_gt \<and> gt_mask clicker_no_gt = None \<and>
   make_next_click edt_dist clicker_no_gt [[True]] = Inl (AssertionError, clicker_no_gt)"
  using make_next_click_without_gt [of clicker_no_gt edt_dist "[[True]]"]
  by (simp add: clicker_no_gt_def Clicker_init_def reset_clicks_def)

text \<open>
  C9. \<^verbatim>\<open>get_clicks\<close> with a limit \<open>k \<ge> 0\<close> returns the first \<open>min k n\<close> clicks in
  insertion order, where \<open>n\<close> is the number of clicks; without a limit it returns all
  clicks; with the limit 0 it returns the empty list. The method assigns to no attribute:
  the model is a function of the state that returns the list only.
\<close>

theorem get_clicks_limit:
  "(0 \<le> k \<longrightarrow> get_clicks s (Some k) = take (min (nat k) (length (clicks_list s))) (clicks_list s)) \<and>
   get_clicks s None = clicks_list s \<and>
   get_clicks s (Some 0) = []"
  by (simp add: get_clicks_def min_def)

theorem get_clicks_limit_witness:
  "Clicker_init None (Some [pos00, neg00, neg01, pos00, neg00]) (- 1) = Inr clicker_five \<and>
   (0::int) \<le> 2 \<and>
   get_clicks clicker_five (Some 2) = [pos00, neg00] \<and>
   get_clicks clicker_five None = [pos00, neg00, neg01, pos00, neg00] \<and>
   get_clicks clicker_five (Some 0) = []"
  using get_clicks_limit [of 2 clicker_five]
  by (simp add: get_clicks_def clicker_five_def Clicker_init_def reset_clicks_def add_click_def
        pos00_def neg00_def neg01_def Let_def)

subsection \<open>The click state under sequences of calls\<close>

lemma shape_update: "shape (a[i := (a ! i)[j := v]]) = shape a"
  by (cases a; cases i) (simp_all add: shape_def)

lemma pixel_of_update: "pixel_of (a[i := (a ! i)[j := v]]) rc = pixel_of a rc"
  by (simp add: pixel_of_def shape_update)

lemma pixel_of_row: "pixel_of a rc = Some (i, j) \<Longrightarrow> i < length a"
  by (auto simp: pixel_of_def shape_def dest: np_index_bound split: option.splits)

lemma update2_nth:
  assumes "rect H W a" "i < H" "j < W" "i' < H" "j' < W"
  shows "a[i := (a ! i)[j := v]] ! i' ! j' = (if i' = i \<and> j' = j then v else a ! i' ! j')"
proof -
  have "length a = H" "length (a ! i) = W" using assms by (simp_all add: rect_iff)
  then show ?thesis using assms by (simp add: nth_list_update)
qed

lemma rect_shape_eq: "rect H W a \<Longrightarrow> rect H W b \<Longrightarrow> shape a = shape b"
  by (cases "H = 0") (simp_all add: shape_rect shape_rect0)

lemma add_click_None:
  assumes "gt_mask s = None"
  shows "add_click s c =
      Inr (s\<lparr>num_pos_clicks := num_pos_clicks s + (if is_positive c then 1 else 0),
             num_neg_clicks := num_neg_clicks s + (if is_positive c then 0 else 1),
             clicks_list := clicks_list s @ [c]\<rparr>)"
  using assms by (simp add: add_click_def Let_def)

lemma add_click_Some:
  assumes "gt_mask s = Some g" "add_click s c = Inr s'"
  shows "\<exists>i j. pixel_of (not_clicked_map s) (coords c) = Some (i, j) \<and>
     s' = s\<lparr>num_pos_clicks := num_pos_clicks s + (if is_positive c then 1 else 0),
            num_neg_clicks := num_neg_clicks s + (if is_positive c then 0 else 1),
            clicks_list := clicks_list s @ [c],
            not_clicked_map := (not_clicked_map s)[i := (not_clicked_map s ! i)[j := False]]\<rparr>"
  using assms
  by (auto simp: add_click_def Let_def setitem_def split: option.splits if_splits)

lemma add_click_Some_ok:
  assumes "gt_mask s = Some g" "pixel_of (not_clicked_map s) (coords c) = Some (i, j)"
  shows "add_click s c =
     Inr (s\<lparr>num_pos_clicks := num_pos_clicks s + (if is_positive c then 1 else 0),
            num_neg_clicks := num_neg_clicks s + (if is_positive c then 0 else 1),
            clicks_list := clicks_list s @ [c],
            not_clicked_map := (not_clicked_map s)[i := (not_clicked_map s ! i)[j := False]]\<rparr>)"
  using assms
  by (auto simp: add_click_def Let_def setitem_def split: option.splits if_splits)

lemma remove_last_click_None:
  assumes "gt_mask s = None" "clicks_list s = cl @ [c]"
  shows "remove_last_click s =
      Inr (s\<lparr>num_pos_clicks := num_pos_clicks s - (if is_positive c then 1 else 0),
             num_neg_clicks := num_neg_clicks s - (if is_positive c then 0 else 1),
             clicks_list := cl\<rparr>)"
  using assms by (simp add: remove_last_click_def Let_def)

lemma remove_last_click_Some_ok:
  assumes "gt_mask s = Some g" "clicks_list s = cl @ [c]"
    "pixel_of (not_clicked_map s) (coords c) = Some (i, j)"
  shows "remove_last_click s =
      Inr (s\<lparr>num_pos_clicks := num_pos_clicks s - (if is_positive c then 1 else 0),
             num_neg_clicks := num_neg_clicks s - (if is_positive c then 0 else 1),
             clicks_list := cl,
             not_clicked_map := (not_clicked_map s)[i := (not_clicked_map s ! i)[j := True]]\<rparr>)"
  using assms by (simp add: remove_last_click_def Let_def setitem_def)

lemma remove_last_click_Inr:
  assumes "remove_last_click s = Inr s'"
  shows "\<exists>cl c. clicks_list s = cl @ [c] \<and>
          (gt_mask s \<noteq> None \<longrightarrow> pixel_of (not_clicked_map s) (coords c) \<noteq> None)"
proof (cases "clicks_list s" rule: rev_cases)
  case Nil
  then show ?thesis using assms by (simp add: remove_last_click_def)
next
  case (snoc cl c)
  then show ?thesis using assms
    by (auto simp: remove_last_click_def Let_def setitem_def split: option.splits if_splits)
qed

lemma rect_all_True: "rect H W g \<Longrightarrow> rect H W (map (map (\<lambda>_. True)) g)"
  by (simp add: rect_map_map)

lemma all_True_nth:
  assumes "rect H W g" "i < H" "j < W" shows "map (map (\<lambda>_. True)) g ! i ! j"
proof -
  have "length g = H" "length (g ! i) = W" using assms by (simp_all add: rect_iff)
  then show ?thesis using assms by simp
qed

lemma reset_clicks_inv:
  assumes "gt_shaped H W s"
  shows "click_inv H W (reset_clicks s) \<and> click_inv_fresh H W (reset_clicks s)"
proof -
  from assms obtain g where g: "gt_mask s = Some g" "rect H W g" "rect H W (not_ignore_mask s)"
    by (auto simp: gt_shaped_def split: option.splits)
  have nc: "not_clicked_map (reset_clicks s) = map (map (\<lambda>_. True)) g"
    and cl: "clicks_list (reset_clicks s) = []"
    and others: "gt_mask (reset_clicks s) = Some g"
      "not_ignore_mask (reset_clicks s) = not_ignore_mask s"
      "num_pos_clicks (reset_clicks s) = 0" "num_neg_clicks (reset_clicks s) = 0"
    using g(1) by (simp_all add: reset_clicks_def)
  have "gt_shaped H W (reset_clicks s)"
    using g nc others by (simp add: gt_shaped_def rect_all_True)
  moreover have "counters_ok (reset_clicks s)" using cl others by (simp add: counters_ok_def)
  moreover have "pixels (reset_clicks s) = []" using cl by (simp add: pixels_def)
  moreover have "\<forall>i<H. \<forall>j<W. not_clicked_map (reset_clicks s) ! i ! j"
    using nc all_True_nth[OF g(2)] by simp
  ultimately show ?thesis by (simp add: click_inv_def click_inv_fresh_def)
qed

lemma Clicker_init_inv:
  assumes "Clicker_init (Some lbl) None ign = Inr s0" "rect H W lbl"
  shows "click_inv H W s0 \<and> click_inv_fresh H W s0"
proof -
  let ?t = "\<lparr>gt_mask = Some (map (map (\<lambda>v. v = 1)) lbl),
             not_ignore_mask = map (map (\<lambda>v. v \<noteq> ign)) lbl,
             not_clicked_map = [],
             num_pos_clicks = 0, num_neg_clicks = 0, clicks_list = []\<rparr>"
  have s0: "s0 = reset_clicks ?t" using assms(1) by (simp add: Clicker_init_def)
  have "gt_shaped H W (reset_clicks ?t)"
    using assms(2) by (simp add: gt_shaped_def reset_clicks_def rect_map_map)
  then have "gt_shaped H W s0" using s0 by simp
  then have "click_inv H W (reset_clicks s0) \<and> click_inv_fresh H W (reset_clicks s0)"
    by (rule reset_clicks_inv)
  moreover have "reset_clicks s0 = s0" unfolding s0 by (simp add: reset_clicks_def)
  ultimately show ?thesis by simp
qed

lemma add_click_inv:
  assumes inv: "click_inv H W s" and a: "add_click s c = Inr s'"
  shows "click_inv H W s' \<and> (click_inv_fresh H W s \<and> fresh_pixel s c \<longrightarrow> click_inv_fresh H W s')"
proof -
  from inv obtain g where g: "gt_mask s = Some g" "rect H W g" "rect H W (not_ignore_mask s)"
    "rect H W (not_clicked_map s)"
    by (auto simp: click_inv_def gt_shaped_def split: option.splits)
  from add_click_Some[OF g(1) a] obtain i j where
    p: "pixel_of (not_clicked_map s) (coords c) = Some (i, j)" and
    s': "s' = s\<lparr>num_pos_clicks := num_pos_clicks s + (if is_positive c then 1 else 0),
            num_neg_clicks := num_neg_clicks s + (if is_positive c then 0 else 1),
            clicks_list := clicks_list s @ [c],
            not_clicked_map := (not_clicked_map s)[i := (not_clicked_map s ! i)[j := False]]\<rparr>"
    by blast
  from pixel_of_bounds[OF g(4) p] have ij: "i < H" "j < W" by simp_all
  have nc: "not_clicked_map s' = (not_clicked_map s)[i := (not_clicked_map s ! i)[j := False]]"
    and cl: "clicks_list s' = clicks_list s @ [c]"
    and gt: "gt_mask s' = Some g" "not_ignore_mask s' = not_ignore_mask s"
    using s' g(1) by simp_all
  have px: "pixels s' = pixels s @ [Some (i, j)]"
    using p by (simp add: pixels_def nc cl pixel_of_update)
  have v: "\<forall>i'<H. \<forall>j'<W. not_clicked_map s' ! i' ! j' =
            (if i' = i \<and> j' = j then False else not_clicked_map s ! i' ! j')"
    using update2_nth[OF g(4) ij] nc by simp
  have shaped: "gt_shaped H W s'"
    using g gt nc by (simp add: gt_shaped_def rect_update)
  have cnt: "counters_ok s'"
    using inv s' by (simp add: click_inv_def counters_ok_def)
  have none: "None \<notin> set (pixels s')" using inv px by (simp add: click_inv_def)
  have weak: "\<forall>i'<H. \<forall>j'<W. \<not> not_clicked_map s' ! i' ! j' \<longrightarrow> Some (i', j') \<in> set (pixels s')"
    using inv v px by (auto simp: click_inv_def)
  have w: "click_inv H W s'" using shaped cnt none weak by (simp add: click_inv_def)
  have "click_inv_fresh H W s'" if f: "click_inv_fresh H W s" and fr: "fresh_pixel s c"
  proof -
    have t: "not_clicked_map s ! i ! j" using fr g(1) p by (simp add: fresh_pixel_def)
    then have notin: "Some (i, j) \<notin> set (pixels s)" using f ij by (auto simp: click_inv_fresh_def)
    then have "distinct (pixels s')" using f px by (simp add: click_inv_fresh_def)
    moreover have "\<forall>i'<H. \<forall>j'<W. Some (i', j') \<in> set (pixels s') \<longrightarrow> \<not> not_clicked_map s' ! i' ! j'"
      using f v px by (auto simp: click_inv_fresh_def)
    ultimately show ?thesis by (simp add: click_inv_fresh_def)
  qed
  with w show ?thesis by blast
qed

lemma remove_last_click_inv:
  assumes inv: "click_inv H W s" and a: "remove_last_click s = Inr s'"
  shows "click_inv H W s' \<and> (click_inv_fresh H W s \<longrightarrow> click_inv_fresh H W s')"
proof -
  from inv obtain g where g: "gt_mask s = Some g" "rect H W g" "rect H W (not_ignore_mask s)"
    "rect H W (not_clicked_map s)"
    by (auto simp: click_inv_def gt_shaped_def split: option.splits)
  from remove_last_click_Inr[OF a] g(1) obtain cl c i j where
    l: "clicks_list s = cl @ [c]" and p: "pixel_of (not_clicked_map s) (coords c) = Some (i, j)"
    by auto
  from remove_last_click_Some_ok[OF g(1) l p] a have
    s': "s' = s\<lparr>num_pos_clicks := num_pos_clicks s - (if is_positive c then 1 else 0),
             num_neg_clicks := num_neg_clicks s - (if is_positive c then 0 else 1),
             clicks_list := cl,
             not_clicked_map := (not_clicked_map s)[i := (not_clicked_map s ! i)[j := True]]\<rparr>"
    by simp
  from pixel_of_bounds[OF g(4) p] have ij: "i < H" "j < W" by simp_all
  have nc: "not_clicked_map s' = (not_clicked_map s)[i := (not_clicked_map s ! i)[j := True]]"
    and cl: "clicks_list s' = cl"
    and gt: "gt_mask s' = Some g" "not_ignore_mask s' = not_ignore_mask s"
    using s' g(1) by simp_all
  have px: "pixels s = pixels s' @ [Some (i, j)]"
    using p l by (simp add: pixels_def nc cl pixel_of_update)
  have v: "\<forall>i'<H. \<forall>j'<W. not_clicked_map s' ! i' ! j' =
            (if i' = i \<and> j' = j then True else not_clicked_map s ! i' ! j')"
    using update2_nth[OF g(4) ij] nc by simp
  have shaped: "gt_shaped H W s'"
    using g gt nc by (simp add: gt_shaped_def rect_update)
  have cnt: "counters_ok s'"
    using inv s' l by (auto simp: click_inv_def counters_ok_def)
  have none: "None \<notin> set (pixels s')" using inv px by (simp add: click_inv_def)
  have weak: "\<forall>i'<H. \<forall>j'<W. \<not> not_clicked_map s' ! i' ! j' \<longrightarrow> Some (i', j') \<in> set (pixels s')"
    using inv v px by (auto simp: click_inv_def)
  have w: "click_inv H W s'" using shaped cnt none weak by (simp add: click_inv_def)
  have "click_inv_fresh H W s'" if f: "click_inv_fresh H W s"
  proof -
    have d: "distinct (pixels s')" and notin: "Some (i, j) \<notin> set (pixels s')"
      using f px by (simp_all add: click_inv_fresh_def)
    moreover have "\<forall>i'<H. \<forall>j'<W. Some (i', j') \<in> set (pixels s') \<longrightarrow> \<not> not_clicked_map s' ! i' ! j'"
      using f v px notin by (auto simp: click_inv_fresh_def)
    ultimately show ?thesis by (simp add: click_inv_fresh_def)
  qed
  with w show ?thesis by blast
qed

lemma run_calls_inv:
  assumes "click_inv H W s0" "run_calls s0 cs = Inr s"
  shows "click_inv H W s \<and> (click_inv_fresh H W s0 \<and> fresh_adds s0 cs \<longrightarrow> click_inv_fresh H W s)"
  using assms
proof (induction cs arbitrary: s0)
  case Nil
  then show ?case by simp
next
  case (Cons x xs)
  from Cons.prems(2) obtain s1 where s1: "apply_call s0 x = Inr s1" and r: "run_calls s1 xs = Inr s"
    by (auto split: sum.splits)
  have step: "click_inv H W s1 \<and>
      (click_inv_fresh H W s0 \<and> (case x of AddClick c \<Rightarrow> fresh_pixel s0 c | _ \<Rightarrow> True)
         \<longrightarrow> click_inv_fresh H W s1)"
  proof (cases x)
    case (AddClick c)
    then show ?thesis using add_click_inv[OF Cons.prems(1), of c s1] s1 by simp
  next
    case RemoveLastClick
    then show ?thesis using remove_last_click_inv[OF Cons.prems(1), of s1] s1 by simp
  next
    case ResetClicks
    have "gt_shaped H W s0" using Cons.prems(1) by (simp add: click_inv_def)
    then show ?thesis using reset_clicks_inv[of H W s0] s1 ResetClicks by auto
  qed
  from Cons.IH[OF _ r] step have "click_inv H W s \<and>
     (click_inv_fresh H W s1 \<and> fresh_adds s1 xs \<longrightarrow> click_inv_fresh H W s)" by blast
  then show ?case using step s1 by auto
qed

lemma add_clicks_replay:
  assumes "gt_mask t = Some g" "rect H W (not_clicked_map t)"
    "\<forall>c\<in>set cs. pixel_of (not_clicked_map t) (coords c) \<noteq> None"
  shows "\<exists>t'. add_clicks t cs = Inr t' \<and> gt_mask t' = gt_mask t \<and>
           not_ignore_mask t' = not_ignore_mask t \<and>
           clicks_list t' = clicks_list t @ cs \<and>
           num_pos_clicks t' = num_pos_clicks t + int (length (filter is_positive cs)) \<and>
           num_neg_clicks t' = num_neg_clicks t + int (length (filter (\<lambda>c. \<not> is_positive c) cs)) \<and>
           rect H W (not_clicked_map t') \<and>
           (\<forall>i<H. \<forall>j<W. not_clicked_map t' ! i ! j =
              (not_clicked_map t ! i ! j \<and>
               Some (i, j) \<notin> (\<lambda>c. pixel_of (not_clicked_map t) (coords c)) ` set cs))"
  using assms
proof (induction cs arbitrary: t)
  case Nil
  then show ?case by simp
next
  case (Cons c cs)
  from Cons.prems(3) obtain i j where p: "pixel_of (not_clicked_map t) (coords c) = Some (i, j)"
    by auto
  let ?nc = "(not_clicked_map t)[i := (not_clicked_map t ! i)[j := False]]"
  let ?t1 = "t\<lparr>num_pos_clicks := num_pos_clicks t + (if is_positive c then 1 else 0),
            num_neg_clicks := num_neg_clicks t + (if is_positive c then 0 else 1),
            clicks_list := clicks_list t @ [c],
            not_clicked_map := ?nc\<rparr>"
  have a: "add_click t c = Inr ?t1" using Cons.prems(1) p by (rule add_click_Some_ok)
  from pixel_of_bounds[OF Cons.prems(2) p] have ij: "i < H" "j < W" by simp_all
  have po: "\<And>rc. pixel_of (not_clicked_map ?t1) rc = pixel_of (not_clicked_map t) rc"
    by (simp add: pixel_of_update)
  have g1: "gt_mask ?t1 = Some g" using Cons.prems(1) by simp
  have r1: "rect H W (not_clicked_map ?t1)" using Cons.prems(2) by (simp add: rect_update)
  have b1: "\<forall>c\<in>set cs. pixel_of (not_clicked_map ?t1) (coords c) \<noteq> None"
    using Cons.prems(3) po by simp
  from Cons.IH[OF g1 r1 b1] obtain t' where t':
    "add_clicks ?t1 cs = Inr t'" "gt_mask t' = gt_mask ?t1"
    "not_ignore_mask t' = not_ignore_mask ?t1"
    "clicks_list t' = clicks_list ?t1 @ cs"
    "num_pos_clicks t' = num_pos_clicks ?t1 + int (length (filter is_positive cs))"
    "num_neg_clicks t' = num_neg_clicks ?t1 + int (length (filter (\<lambda>c. \<not> is_positive c) cs))"
    "rect H W (not_clicked_map t')"
    "\<forall>i<H. \<forall>j<W. not_clicked_map t' ! i ! j =
              (not_clicked_map ?t1 ! i ! j \<and>
               Some (i, j) \<notin> (\<lambda>c. pixel_of (not_clicked_map ?t1) (coords c)) ` set cs)"
    by blast
  have v: "\<forall>i'<H. \<forall>j'<W. not_clicked_map ?t1 ! i' ! j' =
            (if i' = i \<and> j' = j then False else not_clicked_map t ! i' ! j')"
    using update2_nth[OF Cons.prems(2) ij] by simp
  have "add_clicks t (c # cs) = Inr t'" using a t'(1) by simp
  moreover have "gt_mask t' = gt_mask t" "not_ignore_mask t' = not_ignore_mask t"
    "clicks_list t' = clicks_list t @ c # cs"
    "num_pos_clicks t' = num_pos_clicks t + int (length (filter is_positive (c # cs)))"
    "num_neg_clicks t' = num_neg_clicks t + int (length (filter (\<lambda>c. \<not> is_positive c) (c # cs)))"
    using t'(2-6) by simp_all
  moreover have "\<forall>i'<H. \<forall>j'<W. not_clicked_map t' ! i' ! j' =
              (not_clicked_map t ! i' ! j' \<and>
               Some (i', j') \<notin> (\<lambda>c. pixel_of (not_clicked_map t) (coords c)) ` set (c # cs))"
  proof (intro allI impI)
    fix i' j' assume b: "i' < H" "j' < W"
    have "not_clicked_map t' ! i' ! j' =
              (not_clicked_map ?t1 ! i' ! j' \<and>
               Some (i', j') \<notin> (\<lambda>c. pixel_of (not_clicked_map t) (coords c)) ` set cs)"
      using t'(8) b po by simp
    moreover have "not_clicked_map ?t1 ! i' ! j' =
            (if i' = i \<and> j' = j then False else not_clicked_map t ! i' ! j')"
      using v b by blast
    ultimately show "not_clicked_map t' ! i' ! j' =
              (not_clicked_map t ! i' ! j' \<and>
               Some (i', j') \<notin> (\<lambda>c. pixel_of (not_clicked_map t) (coords c)) ` set (c # cs))"
      using p by auto
  qed
  ultimately show ?case using t'(7) by blast
qed

lemma add_clicks_None:
  assumes "gt_mask t = None"
  shows "add_clicks t cs =
     Inr (t\<lparr>num_pos_clicks := num_pos_clicks t + int (length (filter is_positive cs)),
            num_neg_clicks := num_neg_clicks t + int (length (filter (\<lambda>c. \<not> is_positive c) cs)),
            clicks_list := clicks_list t @ cs\<rparr>)"
  using assms
proof (induction cs arbitrary: t)
  case Nil
  then show ?case by simp
next
  case (Cons c cs)
  let ?t1 = "t\<lparr>num_pos_clicks := num_pos_clicks t + (if is_positive c then 1 else 0),
             num_neg_clicks := num_neg_clicks t + (if is_positive c then 0 else 1),
             clicks_list := clicks_list t @ [c]\<rparr>"
  have a: "add_click t c = Inr ?t1" using Cons.prems by (rule add_click_None)
  have "gt_mask ?t1 = None" using Cons.prems by simp
  from Cons.IH[OF this] a show ?case by simp
qed

lemma set_state_restores_gt:
  assumes w: "click_inv H W s" and f: "click_inv_fresh H W s"
  shows "set_state s (get_state s) = Inr s"
proof -
  from w obtain g where g: "gt_mask s = Some g" "rect H W g" "rect H W (not_clicked_map s)"
    by (auto simp: click_inv_def gt_shaped_def split: option.splits)
  let ?t = "reset_clicks s"
  have t: "gt_mask ?t = Some g" "not_clicked_map ?t = map (map (\<lambda>_. True)) g"
    "not_ignore_mask ?t = not_ignore_mask s" "clicks_list ?t = []"
    "num_pos_clicks ?t = 0" "num_neg_clicks ?t = 0"
    using g(1) by (simp_all add: reset_clicks_def)
  have rt: "rect H W (not_clicked_map ?t)" using g(2) t(2) by (simp add: rect_all_True)
  have sh: "shape (not_clicked_map ?t) = shape (not_clicked_map s)"
    using rt g(3) by (rule rect_shape_eq)
  have po: "\<And>rc. pixel_of (not_clicked_map ?t) rc = pixel_of (not_clicked_map s) rc"
    using sh by (simp add: pixel_of_def)
  have "\<forall>c\<in>set (clicks_list s). pixel_of (not_clicked_map ?t) (coords c) \<noteq> None"
    using w po unfolding click_inv_def pixels_def by (metis (no_types, lifting) imageI set_map)
  from add_clicks_replay[OF t(1) rt this] obtain t' where t':
    "add_clicks ?t (clicks_list s) = Inr t'" "gt_mask t' = gt_mask ?t"
    "not_ignore_mask t' = not_ignore_mask ?t"
    "clicks_list t' = clicks_list ?t @ clicks_list s"
    "num_pos_clicks t' = num_pos_clicks ?t + int (length (filter is_positive (clicks_list s)))"
    "num_neg_clicks t' = num_neg_clicks ?t +
        int (length (filter (\<lambda>c. \<not> is_positive c) (clicks_list s)))"
    "rect H W (not_clicked_map t')"
    "\<forall>i<H. \<forall>j<W. not_clicked_map t' ! i ! j =
              (not_clicked_map ?t ! i ! j \<and>
               Some (i, j) \<notin> (\<lambda>c. pixel_of (not_clicked_map ?t) (coords c)) ` set (clicks_list s))"
    by blast
  have img: "(\<lambda>c. pixel_of (not_clicked_map ?t) (coords c)) ` set (clicks_list s) = set (pixels s)"
    using po by (simp add: pixels_def)
  have "\<forall>i<H. \<forall>j<W. not_clicked_map t' ! i ! j = not_clicked_map s ! i ! j"
  proof (intro allI impI)
    fix i j assume b: "i < H" "j < W"
    have "not_clicked_map t' ! i ! j = (Some (i, j) \<notin> set (pixels s))"
      using t'(8) b img t(2) all_True_nth[OF g(2) b] by simp
    moreover have "not_clicked_map s ! i ! j = (Some (i, j) \<notin> set (pixels s))"
      using w f b unfolding click_inv_def click_inv_fresh_def by blast
    ultimately show "not_clicked_map t' ! i ! j = not_clicked_map s ! i ! j" by simp
  qed
  with t'(7) g(3) have nc: "not_clicked_map t' = not_clicked_map s" by (rule rect_ext)
  have "t' = s"
    using w t t'(2-6) nc g(1)
    by (intro clicker.equality) (simp_all add: click_inv_def counters_ok_def)
  then show ?thesis using t'(1) by (simp add: set_state_def get_state_def)
qed

lemma set_state_restores_no_gt:
  assumes "gt_mask s = None" "counters_ok s"
  shows "set_state s (get_state s) = Inr s"
proof -
  have "gt_mask (reset_clicks s) = None" using assms(1) by (simp add: reset_clicks_def)
  from add_clicks_None[OF this, of "clicks_list s"] show ?thesis
    using assms by (simp add: set_state_def get_state_def reset_clicks_def counters_ok_def)
qed

lemma run_calls_no_gt:
  assumes "gt_mask s0 = None" "counters_ok s0" "run_calls s0 cs = Inr s"
  shows "gt_mask s = None \<and> counters_ok s"
  using assms
proof (induction cs arbitrary: s0)
  case Nil
  then show ?case by simp
next
  case (Cons x xs)
  from Cons.prems(3) obtain s1 where s1: "apply_call s0 x = Inr s1" and r: "run_calls s1 xs = Inr s"
    by (auto split: sum.splits)
  have "gt_mask s1 = None \<and> counters_ok s1"
  proof (cases x)
    case (AddClick c)
    then show ?thesis using s1 Cons.prems(1,2) add_click_None[OF Cons.prems(1), of c]
      by (auto simp: counters_ok_def)
  next
    case RemoveLastClick
    from remove_last_click_Inr[of s0 s1] s1 RemoveLastClick obtain cl c where
      l: "clicks_list s0 = cl @ [c]" by auto
    from remove_last_click_None[OF Cons.prems(1) l] s1 RemoveLastClick Cons.prems(1,2) l
    show ?thesis by (auto simp: counters_ok_def)
  next
    case ResetClicks
    then show ?thesis using s1 Cons.prems(1) by (auto simp: reset_clicks_def counters_ok_def)
  qed
  then show ?case using Cons.IH[OF _ _ r] by blast
qed

text \<open>
  C6, as amended. For a click that refers to a pixel inside the map still marked as not
  clicked (or any click when there is no ground truth), \<^verbatim>\<open>add_click\<close> followed by
  \<^verbatim>\<open>_remove_last_click\<close> returns normally and gives back the state before \<^verbatim>\<open>add_click\<close>:
  the same click list, counters and \<^verbatim>\<open>not_clicked_map\<close>.
\<close>

theorem add_then_remove:
  assumes "fresh_pixel s c"
  shows "\<exists>s1. add_click s c = Inr s1 \<and> remove_last_click s1 = Inr s"
proof (cases "gt_mask s")
  case None
  let ?s1 = "s\<lparr>num_pos_clicks := num_pos_clicks s + (if is_positive c then 1 else 0),
             num_neg_clicks := num_neg_clicks s + (if is_positive c then 0 else 1),
             clicks_list := clicks_list s @ [c]\<rparr>"
  have a: "add_click s c = Inr ?s1" using None by (rule add_click_None)
  have "remove_last_click ?s1 = Inr s"
    using None remove_last_click_None[of ?s1 "clicks_list s" c] by simp
  with a show ?thesis by blast
next
  case (Some g)
  from assms Some obtain i j where p: "pixel_of (not_clicked_map s) (coords c) = Some (i, j)"
    and t: "not_clicked_map s ! i ! j"
    by (auto simp: fresh_pixel_def split: option.splits)
  let ?nc = "(not_clicked_map s)[i := (not_clicked_map s ! i)[j := False]]"
  let ?s1 = "s\<lparr>num_pos_clicks := num_pos_clicks s + (if is_positive c then 1 else 0),
            num_neg_clicks := num_neg_clicks s + (if is_positive c then 0 else 1),
            clicks_list := clicks_list s @ [c],
            not_clicked_map := ?nc\<rparr>"
  have a: "add_click s c = Inr ?s1" using Some p by (rule add_click_Some_ok)
  have i: "i < length (not_clicked_map s)" using p by (rule pixel_of_row)
  have row: "(not_clicked_map s ! i)[j := True] = not_clicked_map s ! i"
    using t by (cases "j < length (not_clicked_map s ! i)")
      (simp_all add: list_update_same_conv list_update_beyond)
  have restored: "?nc[i := (?nc ! i)[j := True]] = not_clicked_map s"
    using i row by simp
  have p1: "pixel_of (not_clicked_map ?s1) (coords c) = Some (i, j)"
    using p by (simp add: pixel_of_update)
  have "remove_last_click ?s1 = Inr s"
    using Some remove_last_click_Some_ok[of ?s1 g "clicks_list s" c i j] p1 restored by simp
  with a show ?thesis by blast
qed

theorem add_then_remove_witness:
  "fresh_pixel clicker_1x2 neg01 \<and>
   add_click clicker_1x2 neg01 =
     Inr (clicker_1x2\<lparr>not_clicked_map := [[True, False]], num_neg_clicks := 1,
                      clicks_list := [neg01]\<rparr>) \<and>
   remove_last_click (clicker_1x2\<lparr>not_clicked_map := [[True, False]], num_neg_clicks := 1,
                      clicks_list := [neg01]\<rparr>) = Inr clicker_1x2"
  using add_then_remove [of clicker_1x2 neg01]
  by (simp add: clicker_1x2_def neg01_def run_defs call_defs)

text \<open>
  C6 as stated fails for a click on a pixel that is already marked as clicked: the pair
  of calls marks it as not clicked.
\<close>

theorem add_then_remove_clicked_pixel:
  "add_click clicker_1x2_clicked neg00 =
     Inr (clicker_1x2_clicked\<lparr>num_neg_clicks := 2, clicks_list := [neg00, neg00]\<rparr>) \<and>
   remove_last_click (clicker_1x2_clicked\<lparr>num_neg_clicks := 2, clicks_list := [neg00, neg00]\<rparr>) =
     Inr (clicker_1x2_clicked\<lparr>not_clicked_map := [[True, True]]\<rparr>) \<and>
   clicker_1x2_clicked\<lparr>not_clicked_map := [[True, True]]\<rparr> \<noteq> clicker_1x2_clicked"
  by (simp add: clicker_1x2_clicked_def neg00_def run_defs call_defs)

text \<open>
  C4, as amended. After a sequence of \<^verbatim>\<open>add_click\<close>, \<^verbatim>\<open>_remove_last_click\<close> and
  \<^verbatim>\<open>reset_clicks\<close> calls on a Clicker built with a ground truth, all returning normally:
  the two counters add up to the length of the click list, and every pixel that no click
  of the list refers to is marked as not clicked. When also every \<^verbatim>\<open>add_click\<close> of the
  sequence referred to a pixel still marked as not clicked, every pixel that a click of
  the list refers to is marked as clicked.
\<close>

theorem click_state_invariant:
  assumes "Clicker_init (Some lbl) None ign = Inr s0" "rect H W lbl" "run_calls s0 cs = Inr s"
  shows "num_pos_clicks s + num_neg_clicks s = int (length (clicks_list s)) \<and>
         (\<forall>i<H. \<forall>j<W. Some (i, j) \<notin> set (pixels s) \<longrightarrow> not_clicked_map s ! i ! j) \<and>
         (fresh_adds s0 cs \<longrightarrow>
            (\<forall>i<H. \<forall>j<W. Some (i, j) \<in> set (pixels s) \<longrightarrow> \<not> not_clicked_map s ! i ! j))"
proof -
  from Clicker_init_inv[OF assms(1,2)] have i0: "click_inv H W s0" "click_inv_fresh H W s0"
    by simp_all
  from run_calls_inv[OF i0(1) assms(3)] i0(2) have
    w: "click_inv H W s" and f: "fresh_adds s0 cs \<longrightarrow> click_inv_fresh H W s" by simp_all
  have "int (length (filter is_positive (clicks_list s))) +
        int (length (filter (\<lambda>c. \<not> is_positive c) (clicks_list s))) = int (length (clicks_list s))"
    using sum_length_filter_compl[of is_positive "clicks_list s"] by linarith
  then have "num_pos_clicks s + num_neg_clicks s = int (length (clicks_list s))"
    using w by (simp add: click_inv_def counters_ok_def)
  moreover have "\<forall>i<H. \<forall>j<W. Some (i, j) \<notin> set (pixels s) \<longrightarrow> not_clicked_map s ! i ! j"
    using w unfolding click_inv_def by blast
  moreover have "fresh_adds s0 cs \<longrightarrow>
            (\<forall>i<H. \<forall>j<W. Some (i, j) \<in> set (pixels s) \<longrightarrow> \<not> not_clicked_map s ! i ! j)"
    using f unfolding click_inv_fresh_def by blast
  ultimately show ?thesis by blast
qed

theorem click_state_invariant_witness:
  "Clicker_init (Some [[1, 0]]) None (- 1) = Inr clicker_1x2 \<and> rect 1 2 [[1, 0 :: int]] \<and>
   run_calls clicker_1x2 [AddClick neg00, AddClick neg01, RemoveLastClick] = Inr clicker_1x2_clicked \<and>
   fresh_adds clicker_1x2 [AddClick neg00, AddClick neg01, RemoveLastClick] \<and>
   num_pos_clicks clicker_1x2_clicked + num_neg_clicks clicker_1x2_clicked
     = int (length (clicks_list clicker_1x2_clicked)) \<and>
   pixels clicker_1x2_clicked = [Some (0, 0)] \<and>
   not_clicked_map clicker_1x2_clicked = [[False, True]]"
  using click_state_invariant [of "[[1, 0]]" "- 1" clicker_1x2 1 2
          "[AddClick neg00, AddClick neg01, RemoveLastClick]" clicker_1x2_clicked]
  by (simp add: clicker_1x2_def clicker_1x2_clicked_def neg00_def neg01_def rect_def
        run_defs call_defs)

text \<open>
  C4 as stated fails: after two clicks on one pixel and one \<^verbatim>\<open>_remove_last_click\<close>, the
  pixel of the click left in the list is marked as not clicked.
\<close>

theorem clicked_pixel_marked_not_clicked:
  "Clicker_init (Some [[1]]) None (- 1) = Inr clicker_1x1 \<and>
   run_calls clicker_1x1 [AddClick neg00, AddClick neg00, RemoveLastClick] = Inr clicker_1x1_undone \<and>
   clicks_list clicker_1x1_undone = [neg00] \<and> coords neg00 = (0, 0) \<and>
   pixels clicker_1x1_undone = [Some (0, 0)] \<and>
   not_clicked_map clicker_1x1_undone ! 0 ! 0"
  by (simp add: clicker_1x1_def clicker_1x1_undone_def neg00_def run_defs call_defs)

text \<open>
  C5, as amended. In a state reached from construction by a sequence of \<^verbatim>\<open>add_click\<close>,
  \<^verbatim>\<open>_remove_last_click\<close> and \<^verbatim>\<open>reset_clicks\<close> calls, all returning normally, in which
  every \<^verbatim>\<open>add_click\<close> referred to a pixel still marked as not clicked,
  \<^verbatim>\<open>set_state(get_state())\<close> returns normally and leaves the whole state as it was.
\<close>

theorem set_state_get_state:
  assumes "Clicker_init lbl None ign = Inr s0"
    and "case lbl of None \<Rightarrow> True | Some l \<Rightarrow> rect H W l"
    and "run_calls s0 cs = Inr s" and "fresh_adds s0 cs"
  shows "set_state s (get_state s) = Inr s"
proof (cases lbl)
  case None
  then have "gt_mask s0 = None \<and> counters_ok s0"
    using assms(1) by (auto simp: Clicker_init_def reset_clicks_def counters_ok_def)
  then have "gt_mask s = None \<and> counters_ok s" using run_calls_no_gt assms(3) by blast
  then show ?thesis using set_state_restores_no_gt by blast
next
  case (Some l)
  then have i0: "click_inv H W s0 \<and> click_inv_fresh H W s0"
    using Clicker_init_inv[of l ign s0 H W] assms(1,2) by simp
  then have "click_inv H W s \<and> click_inv_fresh H W s"
    using run_calls_inv[of H W s0 cs s] assms(3,4) by blast
  then show ?thesis using set_state_restores_gt by blast
qed

theorem set_state_get_state_witness:
  "Clicker_init (Some [[1, 0]]) None (- 1) = Inr clicker_1x2 \<and> rect 1 2 [[1, 0 :: int]] \<and>
   run_calls clicker_1x2 [AddClick neg00, AddClick neg01, RemoveLastClick] = Inr clicker_1x2_clicked \<and>
   fresh_adds clicker_1x2 [AddClick neg00, AddClick neg01, RemoveLastClick] \<and>
   set_state clicker_1x2_clicked (get_state clicker_1x2_clicked) = Inr clicker_1x2_clicked"
  using set_state_get_state [of "Some [[1, 0]]" "- 1" clicker_1x2 1 2
          "[AddClick neg00, AddClick neg01, RemoveLastClick]" clicker_1x2_clicked]
  by (simp add: clicker_1x2_def clicker_1x2_clicked_def neg00_def neg01_def rect_def
        run_defs call_defs)

text \<open>
  C5 as stated fails in the state reached by two clicks on one pixel and one
  \<^verbatim>\<open>_remove_last_click\<close>: the replay of \<^verbatim>\<open>set_state\<close> marks the pixel as clicked.
\<close>

theorem set_state_changes_not_clicked:
  "run_calls clicker_1x1 [AddClick neg00, AddClick neg00, RemoveLastClick] = Inr clicker_1x1_undone \<and>
   set_state clicker_1x1_undone (get_state clicker_1x1_undone) =
     Inr (clicker_1x1_undone\<lparr>not_clicked_map := [[False]]\<rparr>) \<and>
   clicker_1x1_undone\<lparr>not_clicked_map := [[False]]\<rparr> \<noteq> clicker_1x1_undone"
  by (simp add: clicker_1x1_def clicker_1x1_undone_def neg00_def run_defs call_defs)

end
